theory Spec2Isabelle
  imports Complex_Main "HOL-Library.AList" "HOL-Library.Char_ord" "HOL-Library.List_Lexorder"
begin

section \<open>The RedGEM sub-network extraction of pytfa, embedded in HOL\<close>

text \<open>
  The development follows \<^verbatim>\<open>src/pytfa/redgem/redgem.py\<close>, class \<^verbatim>\<open>RedGEM\<close>.
  Identifiers (of metabolites, reactions and subsystems) are Python strings. A path is a
  Python tuple of metabolite identifiers. Python exceptions are values of \<open>py_error\<close>; the
  result of a function that can raise is a sum with the error on the left. The recursion of
  \<^verbatim>\<open>retrieve_all_paths\<close> follows the ancestors dictionary and need not end on an
  arbitrary dictionary, so it carries a fuel counter; running out of fuel is the outcome
  \<open>NoFuel\<close>, which is no Python exception but the mark of a computation that did not return.
\<close>

type_synonym met_id = string
type_synonym rxn_id = string
type_synonym subsystem = string
type_synonym path = "met_id list"

datatype py_error = KeyError | IndexError | NoFuel

subsection \<open>Exceptions, dictionaries, lists and loops\<close>

definition bind_e :: "py_error + 'a \<Rightarrow> ('a \<Rightarrow> py_error + 'b) \<Rightarrow> py_error + 'b" where
  "bind_e m f = (case m of Inl e \<Rightarrow> Inl e | Inr x \<Rightarrow> f x)"

text \<open>\<^verbatim>\<open>dict[key]\<close>: a missing key raises KeyError.\<close>

definition getitem :: "('k \<rightharpoonup> 'v) \<Rightarrow> 'k \<Rightarrow> py_error + 'v" where
  "getitem m k = (case m k of None \<Rightarrow> Inl KeyError | Some v \<Rightarrow> Inr v)"

text \<open>\<^verbatim>\<open>list[i]\<close> and \<^verbatim>\<open>list[i] = v\<close>: a negative index counts from the end, an index out
  of range raises IndexError.\<close>

definition index :: "'a list \<Rightarrow> int \<Rightarrow> py_error + 'a" where
  "index xs i =
     (let len = int (length xs); j = (if i < 0 then len + i else i)
      in if 0 \<le> j \<and> j < len then Inr (xs ! nat j) else Inl IndexError)"

definition setindex :: "'a list \<Rightarrow> int \<Rightarrow> 'a \<Rightarrow> py_error + 'a list" where
  "setindex xs i v =
     (let len = int (length xs); j = (if i < 0 then len + i else i)
      in if 0 \<le> j \<and> j < len then Inr (xs[nat j := v]) else Inl IndexError)"

text \<open>\<^verbatim>\<open>range(k)\<close> is \<open>0, ..., k - 1\<close>, empty when \<open>k \<le> 0\<close>.\<close>

definition py_range :: "int \<Rightarrow> int list" where
  "py_range k = [0..k - 1]"

text \<open>A \<^verbatim>\<open>for\<close> loop whose body can raise: the first exception ends the loop.\<close>

primrec foldM_e :: "('a \<Rightarrow> 's \<Rightarrow> py_error + 's) \<Rightarrow> 'a list \<Rightarrow> 's \<Rightarrow> py_error + 's" where
  "foldM_e f [] s = Inr s"
| "foldM_e f (x # xs) s = bind_e (f x s) (foldM_e f xs)"

text \<open>
  Python does not fix the order in which a \<^verbatim>\<open>set\<close> is iterated. A loop over a set \<open>S\<close>
  runs over the list \<open>iter S\<close>, where the enumeration \<open>iter\<close> is a parameter of the model;
  \<open>iter_ok\<close> says that it lists every finite set, each element once.
\<close>

definition iter_ok :: "(string set \<Rightarrow> string list) \<Rightarrow> bool" where
  "iter_ok iter \<longleftrightarrow> (\<forall>S. finite S \<longrightarrow> set (iter S) = S \<and> distinct (iter S))"

text \<open>The per-depth containers: \<^verbatim>\<open>d[i][j][k]\<close> and \<^verbatim>\<open>d[i][k]\<close>, read and assigned.\<close>

definition get2 :: "(subsystem \<rightharpoonup> 'a list) \<Rightarrow> subsystem \<Rightarrow> int \<Rightarrow> py_error + 'a" where
  "get2 m i k = bind_e (getitem m i) (\<lambda>l. index l k)"

definition set2 ::
  "(subsystem \<rightharpoonup> 'a list) \<Rightarrow> subsystem \<Rightarrow> int \<Rightarrow> 'a \<Rightarrow> py_error + (subsystem \<rightharpoonup> 'a list)" where
  "set2 m i k v = bind_e (getitem m i) (\<lambda>l. bind_e (setindex l k v) (\<lambda>l'. Inr (m(i \<mapsto> l'))))"

definition get3 ::
  "(subsystem \<rightharpoonup> (subsystem \<rightharpoonup> 'a list)) \<Rightarrow> subsystem \<Rightarrow> subsystem \<Rightarrow> int \<Rightarrow> py_error + 'a" where
  "get3 m i j k = bind_e (getitem m i) (\<lambda>mi. get2 mi j k)"

definition set3 ::
  "(subsystem \<rightharpoonup> (subsystem \<rightharpoonup> 'a list)) \<Rightarrow> subsystem \<Rightarrow> subsystem \<Rightarrow> int \<Rightarrow> 'a
     \<Rightarrow> py_error + (subsystem \<rightharpoonup> (subsystem \<rightharpoonup> 'a list))" where
  "set3 m i j k v = bind_e (getitem m i) (\<lambda>mi. bind_e (set2 mi j k v) (\<lambda>mi'. Inr (m(i \<mapsto> mi'))))"

subsection \<open>The network and the state of a RedGEM object\<close>

text \<open>
  A reaction of the network library: its identifier, its subsystem tag and its dictionary
  from metabolites to stoichiometric coefficients, in insertion order. A metabolite is
  represented by its identifier, the only attribute the algorithm reads.
\<close>

record reaction =
  rxn_id :: rxn_id
  rxn_subsystem :: subsystem
  rxn_metabolites :: "(met_id \<times> real) list"

record network =
  reactions :: "reaction list"
  metabolites :: "met_id list"

text \<open>
  The directed graph of networkx: a dictionary from each node to the dictionary of its
  successors, which holds the \<^verbatim>\<open>rxn_id\<close> attribute of the edge.
\<close>

type_synonym digraph = "met_id \<rightharpoonup> (met_id \<times> rxn_id) list"

text \<open>
  The fields of \<^verbatim>\<open>self\<close> that the modelled methods read or write. A set of reaction
  objects is a set of reaction records.
\<close>

record redgem_state =
  gem :: network
  redgem :: network
  digraph :: digraph
  subsystem_names :: "subsystem list"
  subsystem_reactions :: "subsystem \<rightharpoonup> reaction set"
  subsystem_reactions_id :: "subsystem \<rightharpoonup> rxn_id set"
  subsystem_metabolites_id :: "subsystem \<rightharpoonup> met_id set"
  intermediate_reactions_id :: "subsystem \<rightharpoonup> (subsystem \<rightharpoonup> rxn_id set list)"
  intermediate_metabolites_id :: "subsystem \<rightharpoonup> (subsystem \<rightharpoonup> met_id set list)"
  intermediate_paths :: "subsystem \<rightharpoonup> (subsystem \<rightharpoonup> path set list)"
  min_distance_sub_to_sub :: "subsystem \<rightharpoonup> (subsystem \<rightharpoonup> int)"
  intermediate_extracellular_paths :: "subsystem \<rightharpoonup> path set list"
  intermediate_extracellular_metabolites_id :: "subsystem \<rightharpoonup> met_id set list"
  intermediate_extracellular_reactions_id :: "subsystem \<rightharpoonup> rxn_id set list"
  path_dict :: "met_id \<rightharpoonup> path list"
  cofactor_pairs :: "met_id list"
  small_metabolites :: "met_id list"
  inorganics :: "met_id list"
  depth_d :: int
  extracellular_system :: "met_id list"
  depth_n :: int

subsection \<open>\<^verbatim>\<open>__init__\<close>\<close>

definition dict_of_lists_of_sets :: "subsystem list \<Rightarrow> int \<Rightarrow> (subsystem \<rightharpoonup> 'a set list)" where
  "dict_of_lists_of_sets names d =
     fold (\<lambda>name m. m(name \<mapsto> map (\<lambda>_. {}) (py_range (d + 1)))) names Map.empty"

definition dict_of_dicts_of_lists_of_sets ::
  "subsystem list \<Rightarrow> int \<Rightarrow> (subsystem \<rightharpoonup> (subsystem \<rightharpoonup> 'a set list))" where
  "dict_of_dicts_of_lists_of_sets names d =
     fold (\<lambda>name m. m(name \<mapsto> dict_of_lists_of_sets names d)) names Map.empty"

definition dict_of_int :: "subsystem list \<Rightarrow> (subsystem \<rightharpoonup> int)" where
  "dict_of_int names = fold (\<lambda>name m. m(name \<mapsto> - 1)) names Map.empty"

definition dict_of_dicts_of_int :: "subsystem list \<Rightarrow> (subsystem \<rightharpoonup> (subsystem \<rightharpoonup> int))" where
  "dict_of_dicts_of_int names = fold (\<lambda>name m. m(name \<mapsto> dict_of_int names)) names Map.empty"

definition init ::
  "network \<Rightarrow> met_id list \<Rightarrow> met_id list \<Rightarrow> met_id list \<Rightarrow> int \<Rightarrow> met_id list
     \<Rightarrow> subsystem list \<Rightarrow> int \<Rightarrow> redgem_state" where
  "init gem0 cofactor_pairs0 small_metabolites0 inorganics0 d extracellular_system0
        subsystem_names0 n =
     \<lparr> gem = gem0,
       redgem = gem0,
       digraph = Map.empty,
       subsystem_names = subsystem_names0,
       subsystem_reactions = Map.empty,
       subsystem_reactions_id = Map.empty,
       subsystem_metabolites_id = Map.empty,
       intermediate_reactions_id = dict_of_dicts_of_lists_of_sets subsystem_names0 d,
       intermediate_metabolites_id = dict_of_dicts_of_lists_of_sets subsystem_names0 d,
       intermediate_paths = dict_of_dicts_of_lists_of_sets subsystem_names0 d,
       min_distance_sub_to_sub = dict_of_dicts_of_int subsystem_names0,
       intermediate_extracellular_paths = dict_of_lists_of_sets subsystem_names0 d,
       intermediate_extracellular_metabolites_id = dict_of_lists_of_sets subsystem_names0 d,
       intermediate_extracellular_reactions_id = dict_of_lists_of_sets subsystem_names0 d,
       path_dict = Map.empty,
       cofactor_pairs = cofactor_pairs0,
       small_metabolites = small_metabolites0,
       inorganics = inorganics0,
       depth_d = d,
       extracellular_system = extracellular_system0,
       depth_n = n \<rparr>"

subsection \<open>Subsystem extraction\<close>

text \<open>The test that skips cofactor pairs, small metabolites and inorganics.\<close>

definition ignorable :: "redgem_state \<Rightarrow> met_id \<Rightarrow> bool" where
  "ignorable st metabolite_id \<longleftrightarrow>
     metabolite_id \<in> set (cofactor_pairs st) \<or> metabolite_id \<in> set (small_metabolites st)
     \<or> metabolite_id \<in> set (inorganics st)"

definition extract_subsystem_reactions :: "subsystem \<Rightarrow> redgem_state \<Rightarrow> redgem_state" where
  "extract_subsystem_reactions subsystem st =
     (let sel = filter (\<lambda>rxn. rxn_subsystem rxn = subsystem) (reactions (gem st));
          rxns = set sel;
          rxns_id = set (map rxn_id sel)
      in st\<lparr> subsystem_reactions := (subsystem_reactions st)(subsystem \<mapsto> rxns),
              subsystem_reactions_id := (subsystem_reactions_id st)(subsystem \<mapsto> rxns_id) \<rparr>)"

text \<open>
  The loop over the set of reactions only adds identifiers to a set, so its result does not
  depend on the order of the iteration: it is the union over the reactions.
\<close>

definition extract_subsystem_metabolites ::
  "subsystem \<Rightarrow> redgem_state \<Rightarrow> py_error + redgem_state" where
  "extract_subsystem_metabolites subsystem st =
     bind_e (getitem (subsystem_reactions st) subsystem) (\<lambda>subsystem_rxns.
       let metabolites_id =
             (\<Union>rxn \<in> subsystem_rxns.
                {m \<in> set (map fst (rxn_metabolites rxn)). \<not> ignorable st m})
       in Inr (st\<lparr> subsystem_metabolites_id :=
                      (subsystem_metabolites_id st)(subsystem \<mapsto> metabolites_id) \<rparr>))"

subsection \<open>\<^verbatim>\<open>create_new_stoichiometric_matrix\<close>\<close>

text \<open>The metabolites of a reaction that are kept, with their coefficients.\<close>

definition kept_of :: "redgem_state \<Rightarrow> reaction \<Rightarrow> (met_id \<times> real) list" where
  "kept_of st rxn = filter (\<lambda>(m, c). \<not> ignorable st m) (rxn_metabolites rxn)"

text \<open>
  Modelled from the spec: the accessors \<^verbatim>\<open>reactants\<close> and \<^verbatim>\<open>products\<close> of a reaction belong
  to the external network library; the spec gives its sign convention, reactants have a
  negative coefficient and products a positive one.
\<close>

definition reactants :: "(met_id \<times> real) list \<Rightarrow> met_id list" where
  "reactants mets = map fst (filter (\<lambda>(m, c). c < 0) mets)"

definition products :: "(met_id \<times> real) list \<Rightarrow> met_id list" where
  "products mets = map fst (filter (\<lambda>(m, c). 0 < c) mets)"

text \<open>\<^verbatim>\<open>add_node\<close> and \<^verbatim>\<open>add_edge\<close> of networkx: an edge adds its end points, and an edge that
  exists gets its attribute overwritten.\<close>

definition add_node :: "met_id \<Rightarrow> digraph \<Rightarrow> digraph" where
  "add_node u g = (case g u of None \<Rightarrow> g(u \<mapsto> []) | Some _ \<Rightarrow> g)"

definition add_edge :: "met_id \<Rightarrow> met_id \<Rightarrow> rxn_id \<Rightarrow> digraph \<Rightarrow> digraph" where
  "add_edge u v r g =
     (let g' = add_node v (add_node u g)
      in g'(u \<mapsto> AList.update v r (case g' u of None \<Rightarrow> [] | Some succs \<Rightarrow> succs)))"

definition add_reaction_edges :: "redgem_state \<Rightarrow> reaction \<Rightarrow> digraph \<Rightarrow> digraph" where
  "add_reaction_edges st rxn g =
     fold (\<lambda>reactant. fold (\<lambda>product. add_edge reactant product (rxn_id rxn))
                            (products (kept_of st rxn)))
          (reactants (kept_of st rxn)) g"

definition kept_metabolites :: "redgem_state \<Rightarrow> met_id set" where
  "kept_metabolites st = (\<Union>rxn \<in> set (reactions (gem st)). set (map fst (kept_of st rxn)))"

definition create_new_stoichiometric_matrix ::
  "(string set \<Rightarrow> string list) \<Rightarrow> redgem_state \<Rightarrow> redgem_state" where
  "create_new_stoichiometric_matrix iter st =
     (let g1 = fold add_node (iter (kept_metabolites st)) (digraph st);
          g2 = fold (add_reaction_edges st) (reactions (gem st)) g1
      in st\<lparr> digraph := g2 \<rparr>)"

subsection \<open>The admission predicates\<close>

definition is_node_allowed ::
  "redgem_state \<Rightarrow> met_id \<Rightarrow> int \<Rightarrow> met_id set \<Rightarrow> subsystem \<Rightarrow> subsystem \<Rightarrow> int
     \<Rightarrow> py_error + bool" where
  "is_node_allowed st node i explored subsystem_i subsystem_j d =
     (if node \<in> explored then Inr False
      else bind_e (if subsystem_i \<noteq> subsystem_j
                   then bind_e (getitem (subsystem_metabolites_id st) subsystem_i)
                               (\<lambda>M. Inr (node \<in> M))
                   else Inr False) (\<lambda>c1.
        if c1 then Inr False
        else bind_e (if i < d - 1
                     then bind_e (getitem (subsystem_metabolites_id st) subsystem_j)
                                 (\<lambda>M. Inr (node \<in> M))
                     else Inr False) (\<lambda>c2.
          if c2 then Inr False
          else bind_e (if i = d - 1
                       then bind_e (getitem (subsystem_metabolites_id st) subsystem_j)
                                   (\<lambda>M. Inr (node \<notin> M))
                       else Inr False) (\<lambda>c3.
            if c3 then Inr False else Inr True))))"

definition is_node_allowed_extracellular ::
  "redgem_state \<Rightarrow> met_id \<Rightarrow> int \<Rightarrow> met_id set \<Rightarrow> subsystem \<Rightarrow> int \<Rightarrow> py_error + bool" where
  "is_node_allowed_extracellular st node i explored subsystem n =
     (if node \<in> explored then Inr False
      else if node \<in> set (extracellular_system st) then Inr False
      else bind_e (if i < n - 1
                   then bind_e (getitem (subsystem_metabolites_id st) subsystem)
                               (\<lambda>M. Inr (node \<in> M))
                   else Inr False) (\<lambda>c2.
        if c2 then Inr False
        else bind_e (if i = n - 1
                     then bind_e (getitem (subsystem_metabolites_id st) subsystem)
                                 (\<lambda>M. Inr (node \<notin> M))
                     else Inr False) (\<lambda>c3.
          if c3 then Inr False else Inr True)))"

subsection \<open>The bounded breadth-first search\<close>

text \<open>
  The two searches of the source run the same loop and differ in the admission predicate
  only, which is the parameter \<open>allowed\<close> here: it takes the candidate, the step index and
  the explored set. The loop state is the new frontier and the ancestors dictionary inside
  a round, and the frontier, the explored set and the ancestors between rounds.
\<close>

type_synonym ancestors = "met_id \<rightharpoonup> met_id list"

definition visit_successor ::
  "(met_id \<Rightarrow> int \<Rightarrow> met_id set \<Rightarrow> py_error + bool) \<Rightarrow> int \<Rightarrow> met_id set \<Rightarrow> met_id \<Rightarrow> met_id
     \<Rightarrow> met_id set \<times> ancestors \<Rightarrow> py_error + met_id set \<times> ancestors" where
  "visit_successor allowed i explored current_node new_node acc =
     (case acc of (new_nodes, ancestors) \<Rightarrow>
        bind_e (allowed new_node i explored) (\<lambda>ok.
          if ok
          then Inr (insert new_node new_nodes,
                    (case ancestors new_node of
                       Some prev \<Rightarrow> ancestors(new_node \<mapsto> prev @ [current_node])
                     | None \<Rightarrow> ancestors(new_node \<mapsto> [current_node])))
          else Inr (new_nodes, ancestors)))"

definition visit_node ::
  "(string set \<Rightarrow> string list) \<Rightarrow> digraph \<Rightarrow> (met_id \<Rightarrow> int \<Rightarrow> met_id set \<Rightarrow> py_error + bool)
     \<Rightarrow> int \<Rightarrow> met_id set \<Rightarrow> met_id \<Rightarrow> met_id set \<times> ancestors
     \<Rightarrow> py_error + met_id set \<times> ancestors" where
  "visit_node iter g allowed i explored current_node acc =
     bind_e (getitem g current_node) (\<lambda>succs.
       foldM_e (visit_successor allowed i explored current_node)
               (iter (set (map fst succs))) acc)"

definition bfs_round ::
  "(string set \<Rightarrow> string list) \<Rightarrow> digraph \<Rightarrow> (met_id \<Rightarrow> int \<Rightarrow> met_id set \<Rightarrow> py_error + bool)
     \<Rightarrow> int \<Rightarrow> met_id set \<times> met_id set \<times> ancestors
     \<Rightarrow> py_error + met_id set \<times> met_id set \<times> ancestors" where
  "bfs_round iter g allowed i s =
     (case s of (frontier, explored, ancestors) \<Rightarrow>
        bind_e (foldM_e (visit_node iter g allowed i explored) (iter frontier) ({}, ancestors))
          (\<lambda>(new_nodes, ancestors'). Inr (new_nodes, explored \<union> new_nodes, ancestors')))"

definition bfs ::
  "(string set \<Rightarrow> string list) \<Rightarrow> digraph \<Rightarrow> (met_id \<Rightarrow> int \<Rightarrow> met_id set \<Rightarrow> py_error + bool)
     \<Rightarrow> int \<Rightarrow> met_id \<Rightarrow> py_error + met_id set \<times> met_id set \<times> ancestors" where
  "bfs iter g allowed d metabolite_id =
     foldM_e (bfs_round iter g allowed) (py_range d) ({metabolite_id}, {metabolite_id}, Map.empty)"

text \<open>The depth-0 case after the loop: the frontier is emptied when the start node is not
  in the destination subsystem.\<close>

definition handle_depth_0 ::
  "redgem_state \<Rightarrow> subsystem \<Rightarrow> int \<Rightarrow> met_id \<Rightarrow> met_id set \<Rightarrow> py_error + met_id set" where
  "handle_depth_0 st subsystem_j d metabolite_id frontier =
     (if d = 0
      then bind_e (getitem (subsystem_metabolites_id st) subsystem_j) (\<lambda>M.
             if metabolite_id \<notin> M then Inr {} else Inr frontier)
      else Inr frontier)"

subsection \<open>\<^verbatim>\<open>retrieve_all_paths\<close>\<close>

text \<open>
  The recursion with its memo \<^verbatim>\<open>self._path_dict\<close>, passed in and returned. The second
  function is the loop over \<^verbatim>\<open>ancestors[dest_node]\<close>, which accumulates \<^verbatim>\<open>new_paths\<close>.
\<close>

fun retrieve_all_paths ::
  "nat \<Rightarrow> met_id \<Rightarrow> met_id \<Rightarrow> ancestors \<Rightarrow> bool \<Rightarrow> (met_id \<rightharpoonup> path list)
     \<Rightarrow> py_error + path list \<times> (met_id \<rightharpoonup> path list)"
and retrieve_previous ::
  "nat \<Rightarrow> met_id list \<Rightarrow> met_id \<Rightarrow> met_id \<Rightarrow> ancestors \<Rightarrow> (met_id \<rightharpoonup> path list) \<Rightarrow> path list
     \<Rightarrow> py_error + path list \<times> (met_id \<rightharpoonup> path list)" where
  "retrieve_all_paths 0 dest_node src_node ancestors init_dict pd = Inl NoFuel"
| "retrieve_all_paths (Suc fuel) dest_node src_node ancestors init_dict pd =
     (let pd1 = (if init_dict then Map.empty else pd);
          pd2 = (if dest_node = src_node then pd1(dest_node \<mapsto> [[src_node]]) else pd1)
      in case pd2 dest_node of
           Some paths \<Rightarrow> Inr (paths, pd2)
         | None \<Rightarrow>
             (case ancestors dest_node of
                None \<Rightarrow> Inl KeyError
              | Some previous \<Rightarrow>
                  (case retrieve_previous fuel previous dest_node src_node ancestors pd2 [] of
                     Inl e \<Rightarrow> Inl e
                   | Inr (new_paths, pd3) \<Rightarrow> Inr (new_paths, pd3(dest_node \<mapsto> new_paths)))))"
| "retrieve_previous fuel [] dest_node src_node ancestors pd new_paths = Inr (new_paths, pd)"
| "retrieve_previous fuel (previous_node # rest) dest_node src_node ancestors pd new_paths =
     (case retrieve_all_paths fuel previous_node src_node ancestors False pd of
        Inl e \<Rightarrow> Inl e
      | Inr (paths, pd') \<Rightarrow>
          retrieve_previous fuel rest dest_node src_node ancestors pd'
            (new_paths @ map (\<lambda>path. path @ [dest_node]) paths))"

subsection \<open>Recording the paths of a search\<close>

text \<open>The tag of the edge \<^verbatim>\<open>self._graph[u][v]['rxn_id']\<close>.\<close>

definition edge_rxn :: "digraph \<Rightarrow> met_id \<Rightarrow> met_id \<Rightarrow> py_error + rxn_id" where
  "edge_rxn g u v = bind_e (getitem g u) (\<lambda>succs. getitem (map_of succs) v)"

text \<open>\<^verbatim>\<open>s.add(x)\<close> on the set stored at \<^verbatim>\<open>d[i][j][k]\<close>, and on the set at \<^verbatim>\<open>d[i][k]\<close>.\<close>

definition add3 ::
  "(subsystem \<rightharpoonup> (subsystem \<rightharpoonup> 'a set list)) \<Rightarrow> subsystem \<Rightarrow> subsystem \<Rightarrow> int \<Rightarrow> 'a
     \<Rightarrow> py_error + (subsystem \<rightharpoonup> (subsystem \<rightharpoonup> 'a set list))" where
  "add3 m i j k x = bind_e (get3 m i j k) (\<lambda>s. set3 m i j k (insert x s))"

definition add2 ::
  "(subsystem \<rightharpoonup> 'a set list) \<Rightarrow> subsystem \<Rightarrow> int \<Rightarrow> 'a \<Rightarrow> py_error + (subsystem \<rightharpoonup> 'a set list)" where
  "add2 m i k x = bind_e (get2 m i k) (\<lambda>s. set2 m i k (insert x s))"

definition record_edge ::
  "path \<Rightarrow> subsystem \<Rightarrow> subsystem \<Rightarrow> int \<Rightarrow> int \<Rightarrow> redgem_state \<Rightarrow> py_error + redgem_state" where
  "record_edge path subsystem_i subsystem_j d i st =
     bind_e (index path i) (\<lambda>u.
     bind_e (index path (i + 1)) (\<lambda>v.
     bind_e (edge_rxn (digraph st) u v) (\<lambda>reaction.
     bind_e (add3 (intermediate_reactions_id st) subsystem_i subsystem_j d reaction) (\<lambda>ir.
       let st1 = st\<lparr> intermediate_reactions_id := ir \<rparr>
       in if 0 < i
          then bind_e (index path i) (\<lambda>w.
               bind_e (add3 (intermediate_metabolites_id st1) subsystem_i subsystem_j d w) (\<lambda>im.
                 Inr (st1\<lparr> intermediate_metabolites_id := im \<rparr>)))
          else Inr st1))))"

definition retrieve_intermediate_metabolites_and_reactions ::
  "path list \<Rightarrow> subsystem \<Rightarrow> subsystem \<Rightarrow> int \<Rightarrow> redgem_state \<Rightarrow> py_error + redgem_state" where
  "retrieve_intermediate_metabolites_and_reactions paths subsystem_i subsystem_j d st =
     foldM_e (\<lambda>path. foldM_e (record_edge path subsystem_i subsystem_j d)
                              (py_range (int (length path) - 1)))
             paths st"

definition record_edge_extracellular ::
  "path \<Rightarrow> subsystem \<Rightarrow> int \<Rightarrow> int \<Rightarrow> redgem_state \<Rightarrow> py_error + redgem_state" where
  "record_edge_extracellular path subsystem n i st =
     bind_e (index path i) (\<lambda>u.
     bind_e (index path (i + 1)) (\<lambda>v.
     bind_e (edge_rxn (digraph st) u v) (\<lambda>reaction.
     bind_e (add2 (intermediate_extracellular_reactions_id st) subsystem n reaction) (\<lambda>ir.
       let st1 = st\<lparr> intermediate_extracellular_reactions_id := ir \<rparr>
       in if 0 < i
          then bind_e (index path i) (\<lambda>w.
               bind_e (add2 (intermediate_extracellular_metabolites_id st1) subsystem n w) (\<lambda>im.
                 Inr (st1\<lparr> intermediate_extracellular_metabolites_id := im \<rparr>)))
          else Inr st1))))"

definition retrieve_intermediate_extracellular_metabolites_and_reactions ::
  "path list \<Rightarrow> subsystem \<Rightarrow> int \<Rightarrow> redgem_state \<Rightarrow> py_error + redgem_state" where
  "retrieve_intermediate_extracellular_metabolites_and_reactions paths subsystem n st =
     foldM_e (\<lambda>path. foldM_e (record_edge_extracellular path subsystem n)
                              (py_range (int (length path) - 1)))
             paths st"

subsection \<open>\<^verbatim>\<open>breadth_search_subsystems_paths_length_d\<close>\<close>

text \<open>The body of the loop over the frontier: enumerate the paths to one destination,
  join them to the path-result set and record their reactions and metabolites.\<close>

definition record_destination ::
  "nat \<Rightarrow> subsystem \<Rightarrow> subsystem \<Rightarrow> int \<Rightarrow> met_id \<Rightarrow> ancestors \<Rightarrow> met_id \<Rightarrow> redgem_state
     \<Rightarrow> py_error + redgem_state" where
  "record_destination fuel subsystem_i subsystem_j d metabolite_id ancestors node st =
     bind_e (retrieve_all_paths fuel node metabolite_id ancestors True (path_dict st))
       (\<lambda>(paths, pd).
          let st1 = st\<lparr> path_dict := pd \<rparr>
          in bind_e (get3 (intermediate_paths st1) subsystem_i subsystem_j d) (\<lambda>old.
             bind_e (set3 (intermediate_paths st1) subsystem_i subsystem_j d (old \<union> set paths))
               (\<lambda>ip. retrieve_intermediate_metabolites_and_reactions paths subsystem_i
                        subsystem_j d (st1\<lparr> intermediate_paths := ip \<rparr>))))"

text \<open>The body of the loop over the metabolites of the source subsystem.\<close>

definition search_from ::
  "(string set \<Rightarrow> string list) \<Rightarrow> nat \<Rightarrow> subsystem \<Rightarrow> subsystem \<Rightarrow> int \<Rightarrow> met_id \<Rightarrow> redgem_state
     \<Rightarrow> py_error + redgem_state" where
  "search_from iter fuel subsystem_i subsystem_j d metabolite_id st =
     bind_e (bfs iter (digraph st)
               (\<lambda>node i explored. is_node_allowed st node i explored subsystem_i subsystem_j d)
               d metabolite_id)
       (\<lambda>(frontier, explored, ancestors).
          bind_e (handle_depth_0 st subsystem_j d metabolite_id frontier) (\<lambda>frontier'.
            foldM_e (record_destination fuel subsystem_i subsystem_j d metabolite_id ancestors)
                    (iter frontier') st))"

definition breadth_search_subsystems_paths_length_d ::
  "(string set \<Rightarrow> string list) \<Rightarrow> nat \<Rightarrow> subsystem \<Rightarrow> subsystem \<Rightarrow> int \<Rightarrow> redgem_state
     \<Rightarrow> py_error + redgem_state" where
  "breadth_search_subsystems_paths_length_d iter fuel subsystem_i subsystem_j d st =
     bind_e (getitem (subsystem_metabolites_id st) subsystem_i) (\<lambda>M.
       foldM_e (search_from iter fuel subsystem_i subsystem_j d) (iter M) st)"

subsection \<open>\<^verbatim>\<open>find_min_distance_between_subsystems\<close>\<close>

text \<open>The scan over the depths, which stops at the first non-empty path-result set.\<close>

fun scan_depths ::
  "(subsystem \<rightharpoonup> (subsystem \<rightharpoonup> path set list)) \<Rightarrow> subsystem \<Rightarrow> subsystem \<Rightarrow> int list
     \<Rightarrow> py_error + int option" where
  "scan_depths ip i j [] = Inr None"
| "scan_depths ip i j (k # ks) =
     bind_e (get3 ip i j k) (\<lambda>s. if s \<noteq> {} then Inr (Some k) else scan_depths ip i j ks)"

definition min_distance_pair ::
  "subsystem \<Rightarrow> subsystem \<Rightarrow> redgem_state \<Rightarrow> py_error + redgem_state" where
  "min_distance_pair i j st =
     bind_e (scan_depths (intermediate_paths st) i j (py_range (depth_d st + 1))) (\<lambda>found.
     bind_e (case found of
               None \<Rightarrow> Inr st
             | Some k \<Rightarrow>
                 bind_e (getitem (min_distance_sub_to_sub st) i) (\<lambda>mi.
                   Inr (st\<lparr> min_distance_sub_to_sub :=
                               (min_distance_sub_to_sub st)(i \<mapsto> mi(j \<mapsto> k)) \<rparr>))) (\<lambda>st1.
     bind_e (getitem (min_distance_sub_to_sub st1) i) (\<lambda>mi.
     bind_e (getitem mi j) (\<lambda>_. Inr st1))))"

definition find_min_distance_between_subsystems ::
  "redgem_state \<Rightarrow> py_error + (subsystem \<rightharpoonup> (subsystem \<rightharpoonup> int)) \<times> redgem_state" where
  "find_min_distance_between_subsystems st =
     bind_e (foldM_e (\<lambda>i. foldM_e (min_distance_pair i) (subsystem_names st))
                     (subsystem_names st) st)
       (\<lambda>st'. Inr (min_distance_sub_to_sub st', st'))"

subsection \<open>\<^verbatim>\<open>breadth_search_extracellular_system_paths\<close>\<close>

definition record_destination_extracellular ::
  "nat \<Rightarrow> subsystem \<Rightarrow> int \<Rightarrow> met_id \<Rightarrow> ancestors \<Rightarrow> met_id \<Rightarrow> redgem_state
     \<Rightarrow> py_error + redgem_state" where
  "record_destination_extracellular fuel subsystem n metabolite_id ancestors node st =
     bind_e (retrieve_all_paths fuel node metabolite_id ancestors True (path_dict st))
       (\<lambda>(paths, pd).
          let st1 = st\<lparr> path_dict := pd \<rparr>
          in bind_e (get2 (intermediate_extracellular_paths st1) subsystem n) (\<lambda>old.
             bind_e (set2 (intermediate_extracellular_paths st1) subsystem n (old \<union> set paths))
               (\<lambda>ip. retrieve_intermediate_extracellular_metabolites_and_reactions paths
                        subsystem n (st1\<lparr> intermediate_extracellular_paths := ip \<rparr>))))"

definition search_from_extracellular ::
  "(string set \<Rightarrow> string list) \<Rightarrow> nat \<Rightarrow> subsystem \<Rightarrow> int \<Rightarrow> met_id \<Rightarrow> redgem_state
     \<Rightarrow> py_error + redgem_state" where
  "search_from_extracellular iter fuel subsystem n metabolite_id st =
     bind_e (bfs iter (digraph st)
               (\<lambda>node i explored. is_node_allowed_extracellular st node i explored subsystem n)
               n metabolite_id)
       (\<lambda>(frontier, explored, ancestors).
          bind_e (handle_depth_0 st subsystem n metabolite_id frontier) (\<lambda>frontier'.
            foldM_e (record_destination_extracellular fuel subsystem n metabolite_id ancestors)
                    (iter frontier') st))"

definition breadth_search_extracellular_system_paths ::
  "(string set \<Rightarrow> string list) \<Rightarrow> nat \<Rightarrow> subsystem \<Rightarrow> int \<Rightarrow> redgem_state
     \<Rightarrow> py_error + redgem_state" where
  "breadth_search_extracellular_system_paths iter fuel subsystem n st =
     foldM_e (search_from_extracellular iter fuel subsystem n) (extracellular_system st) st"

subsection \<open>The driver\<close>

definition run_between_all_subsystems ::
  "(string set \<Rightarrow> string list) \<Rightarrow> nat \<Rightarrow> redgem_state \<Rightarrow> py_error + redgem_state" where
  "run_between_all_subsystems iter fuel st =
     bind_e (foldM_e (\<lambda>subsystem s.
                        extract_subsystem_metabolites subsystem
                          (extract_subsystem_reactions subsystem s))
                     (subsystem_names st) st) (\<lambda>st1.
       foldM_e (\<lambda>subsystem_i.
                  foldM_e (\<lambda>subsystem_j.
                             foldM_e (breadth_search_subsystems_paths_length_d iter fuel
                                        subsystem_i subsystem_j)
                                     (py_range (depth_d st1 + 1)))
                          (subsystem_names st1))
               (subsystem_names st1) st1)"

definition run_extracellular_system ::
  "(string set \<Rightarrow> string list) \<Rightarrow> nat \<Rightarrow> redgem_state \<Rightarrow> py_error + redgem_state" where
  "run_extracellular_system iter fuel st =
     foldM_e (\<lambda>subsystem.
                foldM_e (breadth_search_extracellular_system_paths iter fuel subsystem)
                        (py_range (depth_n st + 1)))
             (subsystem_names st) st"

subsection \<open>\<^verbatim>\<open>extract_sub_network\<close>\<close>

text \<open>
  Modelled from the spec: \<^verbatim>\<open>remove_reactions\<close> belongs to the external network library. It
  removes the reactions whose identifiers are given and, when asked to remove orphans,
  the metabolites of the removed reactions that no remaining reaction uses.
\<close>

definition mets_of :: "reaction list \<Rightarrow> met_id set" where
  "mets_of rs = (\<Union>r \<in> set rs. set (map fst (rxn_metabolites r)))"

definition remove_reactions :: "rxn_id set \<Rightarrow> bool \<Rightarrow> network \<Rightarrow> network" where
  "remove_reactions ids remove_orphans net =
     (let removed = filter (\<lambda>r. rxn_id r \<in> ids) (reactions net);
          remaining = filter (\<lambda>r. rxn_id r \<notin> ids) (reactions net)
      in \<lparr> reactions = remaining,
           metabolites =
             (if remove_orphans
              then filter (\<lambda>m. \<not> (m \<in> mets_of removed \<and> m \<notin> mets_of remaining))
                          (metabolites net)
              else metabolites net) \<rparr>)"

text \<open>The three loops that subtract the kept sets; the loop state is the pair of
  \<^verbatim>\<open>to_remove_metabolites\<close> and \<^verbatim>\<open>to_remove_reactions\<close>.\<close>

definition keep_subsystem ::
  "redgem_state \<Rightarrow> subsystem \<Rightarrow> met_id set \<times> rxn_id set \<Rightarrow> py_error + met_id set \<times> rxn_id set" where
  "keep_subsystem st name acc =
     (case acc of (to_remove_metabolites, to_remove_reactions) \<Rightarrow>
        bind_e (getitem (subsystem_reactions_id st) name) (\<lambda>R.
        bind_e (getitem (subsystem_metabolites_id st) name) (\<lambda>M.
          Inr (to_remove_metabolites - M, to_remove_reactions - R))))"

definition keep_intermediate ::
  "redgem_state \<Rightarrow> subsystem \<Rightarrow> subsystem \<Rightarrow> int \<Rightarrow> met_id set \<times> rxn_id set
     \<Rightarrow> py_error + met_id set \<times> rxn_id set" where
  "keep_intermediate st i j k acc =
     (case acc of (to_remove_metabolites, to_remove_reactions) \<Rightarrow>
        bind_e (get3 (intermediate_reactions_id st) i j k) (\<lambda>R.
        bind_e (get3 (intermediate_metabolites_id st) i j k) (\<lambda>M.
          Inr (to_remove_metabolites - M, to_remove_reactions - R))))"

definition keep_extracellular ::
  "redgem_state \<Rightarrow> subsystem \<Rightarrow> int \<Rightarrow> met_id set \<times> rxn_id set
     \<Rightarrow> py_error + met_id set \<times> rxn_id set" where
  "keep_extracellular st i k acc =
     (case acc of (to_remove_metabolites, to_remove_reactions) \<Rightarrow>
        bind_e (get2 (intermediate_extracellular_reactions_id st) i k) (\<lambda>R.
        bind_e (get2 (intermediate_extracellular_metabolites_id st) i k) (\<lambda>M.
          Inr (to_remove_metabolites - M, to_remove_reactions - R))))"

text \<open>The two sets as they are when the method prints them.\<close>

definition to_remove :: "redgem_state \<Rightarrow> py_error + met_id set \<times> rxn_id set" where
  "to_remove st =
     bind_e (foldM_e (keep_subsystem st) (subsystem_names st)
               (set (metabolites (gem st)), set (map rxn_id (reactions (gem st)))))
       (\<lambda>acc1.
     bind_e (foldM_e (\<lambda>i. foldM_e (\<lambda>j. foldM_e (keep_intermediate st i j)
                                                (py_range (depth_d st + 1)))
                                   (subsystem_names st))
                     (subsystem_names st) acc1)
       (\<lambda>(to_remove_metabolites, to_remove_reactions).
     foldM_e (\<lambda>i. foldM_e (keep_extracellular st i) (py_range (depth_d st + 1)))
             (subsystem_names st)
             (to_remove_metabolites - set (extracellular_system st), to_remove_reactions)))"

text \<open>The method returns nothing; the model returns what it prints, with the new state.\<close>

definition extract_sub_network ::
  "redgem_state \<Rightarrow> py_error + (met_id set \<times> rxn_id set) \<times> redgem_state" where
  "extract_sub_network st =
     bind_e (to_remove st) (\<lambda>(to_remove_metabolites, to_remove_reactions).
       Inr ((to_remove_metabolites, to_remove_reactions),
            st\<lparr> redgem := remove_reactions to_remove_reactions True (redgem st) \<rparr>))"

definition run ::
  "(string set \<Rightarrow> string list) \<Rightarrow> nat \<Rightarrow> redgem_state
     \<Rightarrow> py_error + (met_id set \<times> rxn_id set) \<times> redgem_state" where
  "run iter fuel st =
     bind_e (run_between_all_subsystems iter fuel (create_new_stoichiometric_matrix iter st))
       (\<lambda>st2. bind_e (run_extracellular_system iter fuel st2) extract_sub_network)"

subsection \<open>Notions used in the statements\<close>

text \<open>
  Reading the containers of a state for a statement: the (i, j, k) path-result set, empty
  where there is no such container, and the entry of the min-distance dictionary.
\<close>

definition paths_of_depth :: "redgem_state \<Rightarrow> subsystem \<Rightarrow> subsystem \<Rightarrow> int \<Rightarrow> path set" where
  "paths_of_depth st i j k =
     (case get3 (intermediate_paths st) i j k of Inr s \<Rightarrow> s | Inl _ \<Rightarrow> {})"

definition min_distance :: "(subsystem \<rightharpoonup> (subsystem \<rightharpoonup> int)) \<Rightarrow> subsystem \<Rightarrow> subsystem \<Rightarrow> int option" where
  "min_distance md i j = (case md i of None \<Rightarrow> None | Some mi \<Rightarrow> mi j)"

text \<open>
  The shape that \<^verbatim>\<open>__init__\<close> gives to the containers: every configured subsystem name is
  a key, and every list of sets has \<open>d + 1\<close> slots.
\<close>

definition shaped2 :: "subsystem list \<Rightarrow> int \<Rightarrow> (subsystem \<rightharpoonup> 'a list) \<Rightarrow> bool" where
  "shaped2 names d m \<longleftrightarrow> (\<forall>i \<in> set names. \<exists>l. m i = Some l \<and> length l = nat (d + 1))"

definition shaped3 ::
  "subsystem list \<Rightarrow> int \<Rightarrow> (subsystem \<rightharpoonup> (subsystem \<rightharpoonup> 'a list)) \<Rightarrow> bool" where
  "shaped3 names d m \<longleftrightarrow> (\<forall>i \<in> set names. \<exists>mi. m i = Some mi \<and> shaped2 names d mi)"

definition shaped_int :: "subsystem list \<Rightarrow> (subsystem \<rightharpoonup> (subsystem \<rightharpoonup> int)) \<Rightarrow> bool" where
  "shaped_int names md \<longleftrightarrow> (\<forall>i \<in> set names. \<exists>mi. md i = Some mi \<and> (\<forall>j \<in> set names. mi j \<noteq> None))"

text \<open>The result of the scan over the depths of a pair, and the loop invariant of
  \<^verbatim>\<open>find_min_distance_between_subsystems\<close>: the state differs from the initial one in the
  min-distance dictionary only, where an entry is the initial one or the scan's result.\<close>

definition first_depth :: "redgem_state \<Rightarrow> subsystem \<Rightarrow> subsystem \<Rightarrow> int option" where
  "first_depth st i j =
     (case scan_depths (intermediate_paths st) i j (py_range (depth_d st + 1)) of
        Inr r \<Rightarrow> r | Inl _ \<Rightarrow> None)"

definition md_inv :: "redgem_state \<Rightarrow> redgem_state \<Rightarrow> bool" where
  "md_inv st0 st \<longleftrightarrow>
     (\<exists>md. st = st0\<lparr> min_distance_sub_to_sub := md \<rparr>
        \<and> shaped_int (subsystem_names st0) md
        \<and> (\<forall>i j. min_distance md i j = min_distance (min_distance_sub_to_sub st0) i j
                 \<or> (first_depth st0 i j \<noteq> None \<and> min_distance md i j = first_depth st0 i j)))"

definition md_done :: "redgem_state \<Rightarrow> subsystem \<Rightarrow> subsystem \<Rightarrow> redgem_state \<Rightarrow> bool" where
  "md_done st0 i j st \<longleftrightarrow>
     min_distance (min_distance_sub_to_sub st) i j =
       (case first_depth st0 i j of
          None \<Rightarrow> min_distance (min_distance_sub_to_sub st0) i j
        | Some k \<Rightarrow> Some k)"

text \<open>The tag of an edge of the graph, if the edge is there.\<close>

definition edge_tag :: "digraph \<Rightarrow> met_id \<Rightarrow> met_id \<Rightarrow> rxn_id option" where
  "edge_tag g a b = (case g a of None \<Rightarrow> None | Some succs \<Rightarrow> map_of succs b)"

text \<open>An admission predicate of a search never admits an explored node.\<close>

definition admits_new :: "(met_id \<Rightarrow> int \<Rightarrow> met_id set \<Rightarrow> py_error + bool) \<Rightarrow> bool" where
  "admits_new allowed \<longleftrightarrow> (\<forall>v i E. allowed v i E = Inr True \<longrightarrow> v \<notin> E)"

text \<open>
  The invariant of a round of the search, on the new frontier and the ancestors built so
  far: the new nodes are outside the explored set, the ancestors of an old node are
  untouched, and the ancestors of a new node are frontier nodes with an edge to it.
\<close>

definition round_inv ::
  "digraph \<Rightarrow> met_id set \<Rightarrow> met_id set \<Rightarrow> ancestors \<Rightarrow> met_id set \<times> ancestors \<Rightarrow> bool" where
  "round_inv g F E anc0 s \<longleftrightarrow>
     (case s of (nn, an) \<Rightarrow>
        finite nn \<and> nn \<inter> E = {} \<and> (\<forall>v. v \<notin> nn \<longrightarrow> an v = anc0 v)
        \<and> (\<forall>v \<in> nn. \<exists>prev. an v = Some prev
                       \<and> (\<forall>a \<in> set prev. a \<in> F \<and> edge_tag g a v \<noteq> None)))"

text \<open>
  The invariant between rounds, after \<open>k\<close> rounds from the start node \<open>src\<close>: every explored
  node has a rank of at most \<open>k\<close>, the frontier has rank \<open>k\<close>, and every recorded ancestor of
  a node is an explored node of the rank just below, with an edge to the node.
\<close>

definition bfs_inv ::
  "digraph \<Rightarrow> met_id \<Rightarrow> (met_id \<Rightarrow> nat) \<Rightarrow> nat \<Rightarrow> met_id set \<times> met_id set \<times> ancestors \<Rightarrow> bool" where
  "bfs_inv g src rank k s \<longleftrightarrow>
     (case s of (frontier, explored, anc) \<Rightarrow>
        finite frontier \<and> frontier \<subseteq> explored \<and> explored = insert src (dom anc)
        \<and> (\<forall>v \<in> explored. rank v \<le> k) \<and> (\<forall>v \<in> frontier. rank v = k)
        \<and> (\<forall>v prev. anc v = Some prev \<longrightarrow>
              (\<forall>a \<in> set prev. a \<in> explored \<and> Suc (rank a) = rank v \<and> edge_tag g a v \<noteq> None)))"

text \<open>
  The paths from the source to a node that are consistent with the ancestor chain, in the
  words of the specification: the single path of the source alone, and for another node
  the paths to any of its immediate ancestors, each extended by the node.
\<close>

inductive ancestor_path :: "ancestors \<Rightarrow> met_id \<Rightarrow> met_id \<Rightarrow> path \<Rightarrow> bool"
  for anc :: ancestors and src :: met_id where
  at_source: "ancestor_path anc src src [src]"
| extend: "t \<noteq> src \<Longrightarrow> anc t = Some prev \<Longrightarrow> a \<in> set prev \<Longrightarrow> ancestor_path anc src a p
     \<Longrightarrow> ancestor_path anc src t (p @ [t])"

code_pred ancestor_path .

text \<open>The set in a slot of a per-depth container, empty where there is no such slot.\<close>

definition slot2 :: "(subsystem \<rightharpoonup> 'a set list) \<Rightarrow> subsystem \<Rightarrow> int \<Rightarrow> 'a set" where
  "slot2 m i k = (case get2 m i k of Inr s \<Rightarrow> s | Inl _ \<Rightarrow> {})"

definition slot3 ::
  "(subsystem \<rightharpoonup> (subsystem \<rightharpoonup> 'a set list)) \<Rightarrow> subsystem \<Rightarrow> subsystem \<Rightarrow> int \<Rightarrow> 'a set" where
  "slot3 m i j k = (case get3 m i j k of Inr s \<Rightarrow> s | Inl _ \<Rightarrow> {})"

text \<open>The reaction identifiers that tag the edges of a graph.\<close>

definition graph_tags :: "digraph \<Rightarrow> rxn_id set" where
  "graph_tags g = {r. \<exists>u v. edge_tag g u v = Some r}"

text \<open>
  What a subsystem search for the pair (si, sj) at depth \<open>d\<close> may change: the memo and the
  three containers of the pairs and nothing else; the reaction sets grow by edge tags of
  the graph only; the path-result sets other than the one of (si, sj, d) stay as they are.
\<close>

definition sub_frame :: "redgem_state \<Rightarrow> redgem_state \<Rightarrow> bool" where
  "sub_frame st st' \<longleftrightarrow>
     (\<exists>pd ip ir im. st' = st\<lparr> path_dict := pd, intermediate_paths := ip,
                               intermediate_reactions_id := ir,
                               intermediate_metabolites_id := im \<rparr>)"

definition sub_step :: "subsystem \<Rightarrow> subsystem \<Rightarrow> int \<Rightarrow> redgem_state \<Rightarrow> redgem_state \<Rightarrow> bool" where
  "sub_step si sj d st st' \<longleftrightarrow>
     sub_frame st st'
     \<and> (\<forall>i j k. 0 \<le> k \<longrightarrow>
            slot3 (intermediate_reactions_id st') i j k
              \<subseteq> slot3 (intermediate_reactions_id st) i j k \<union> graph_tags (digraph st))
     \<and> (\<forall>i j k. 0 \<le> k \<longrightarrow> \<not> (i = si \<and> j = sj \<and> k = d) \<longrightarrow>
            slot3 (intermediate_paths st') i j k = slot3 (intermediate_paths st) i j k)"

text \<open>What the extraction of the subsystems computes from the network: the reactions
  tagged with the subsystem, and the metabolites of these that are not ignorable.\<close>

definition subsystem_rxns_of :: "redgem_state \<Rightarrow> subsystem \<Rightarrow> reaction set" where
  "subsystem_rxns_of st name = {r \<in> set (reactions (gem st)). rxn_subsystem r = name}"

definition subsystem_mets_of :: "redgem_state \<Rightarrow> subsystem \<Rightarrow> met_id set" where
  "subsystem_mets_of st name =
     (\<Union>rxn \<in> subsystem_rxns_of st name. {m \<in> set (map fst (rxn_metabolites rxn)). \<not> ignorable st m})"

text \<open>The state after the extraction of the subsystems in a list of names.\<close>

definition extracted :: "redgem_state \<Rightarrow> subsystem list \<Rightarrow> redgem_state \<Rightarrow> bool" where
  "extracted st names st' \<longleftrightarrow>
     (\<exists>sr sri smi. st' = st\<lparr> subsystem_reactions := sr, subsystem_reactions_id := sri,
                             subsystem_metabolites_id := smi \<rparr>
        \<and> (\<forall>name. sri name = (if name \<in> set names
                                then Some (rxn_id ` subsystem_rxns_of st name)
                                else subsystem_reactions_id st name))
        \<and> (\<forall>name. smi name = (if name \<in> set names
                                then Some (subsystem_mets_of st name)
                                else subsystem_metabolites_id st name)))"

(*SPEC-DEFS-END*)

subsection \<open>Example inputs\<close>

text \<open>A state in which the subsystem X holds the metabolite A and the subsystem Y holds B.\<close>

definition st_xy :: redgem_state where
  "st_xy = (init \<lparr> reactions = [], metabolites = [] \<rparr> [] [] [] 1 [] [''X'', ''Y''] 0)
             \<lparr> subsystem_metabolites_id := [''X'' \<mapsto> {''A''}, ''Y'' \<mapsto> {''B''}] \<rparr>"

text \<open>
  A search from A whose frontier is D1 and D2, both reached through B: the ancestors
  dictionary of that search, and a state whose graph has the edges A-B, B-D1 and B-D2.
\<close>

definition anc_fork :: ancestors where
  "anc_fork = [''B'' \<mapsto> [''A''], ''D1'' \<mapsto> [''B''], ''D2'' \<mapsto> [''B'']]"

definition st_fork :: redgem_state where
  "st_fork = (init \<lparr> reactions = [], metabolites = [] \<rparr> [] [] [] 2 [] [''X'', ''Y''] 0)
               \<lparr> digraph := [''A'' \<mapsto> [(''B'', ''r1'')],
                              ''B'' \<mapsto> [(''D1'', ''r2''), (''D2'', ''r3'')],
                              ''D1'' \<mapsto> [], ''D2'' \<mapsto> []] \<rparr>"

definition memo_b :: "met_id \<rightharpoonup> path list" where
  "memo_b = [''B'' \<mapsto> [[''A'', ''B'']]]"

text \<open>The state \<open>st_fork\<close> with one path recorded for the pair (X, Y) at depth 2.\<close>

definition st_found :: redgem_state where
  "st_found = st_fork
     \<lparr> intermediate_paths :=
         (intermediate_paths st_fork)
           (''X'' \<mapsto> [''X'' \<mapsto> [{}, {}, {}], ''Y'' \<mapsto> [{}, {}, {[''A'', ''B'', ''D1'']}]]) \<rparr>"

text \<open>
  A network of three reactions in a chain A-B-C-D, the first in subsystem X and using the
  small metabolite h, and a state for the pruner in which X is the only configured
  subsystem and holds the first reaction.
\<close>

definition ex_net :: network where
  "ex_net = \<lparr> reactions =
       [\<lparr> rxn_id = ''r1'', rxn_subsystem = ''X'', rxn_metabolites = [(''A'', - 1), (''h'', - 1), (''B'', 1)] \<rparr>,
        \<lparr> rxn_id = ''r2'', rxn_subsystem = ''Z'', rxn_metabolites = [(''B'', - 1), (''C'', 1)] \<rparr>,
        \<lparr> rxn_id = ''r3'', rxn_subsystem = ''Z'', rxn_metabolites = [(''C'', - 1), (''D'', 1)] \<rparr>],
     metabolites = [''A'', ''B'', ''C'', ''D'', ''h''] \<rparr>"

definition st_prune :: redgem_state where
  "st_prune = (init ex_net [] [''h''] [] 0 [] [''X''] 0)
     \<lparr> subsystem_reactions_id := [''X'' \<mapsto> {''r1''}],
       subsystem_metabolites_id := [''X'' \<mapsto> {''A'', ''B''}] \<rparr>"

text \<open>
  Two reactions that both turn A into B, and an exchange reaction whose only metabolite
  E has no partner; h is a small metabolite.
\<close>

definition ex_dup :: network where
  "ex_dup = \<lparr> reactions =
       [\<lparr> rxn_id = ''r1'', rxn_subsystem = ''X'', rxn_metabolites = [(''A'', - 1), (''B'', 1)] \<rparr>,
        \<lparr> rxn_id = ''r2'', rxn_subsystem = ''X'', rxn_metabolites = [(''A'', - 1), (''h'', - 1), (''B'', 1)] \<rparr>,
        \<lparr> rxn_id = ''r3'', rxn_subsystem = ''Y'', rxn_metabolites = [(''E'', - 1)] \<rparr>],
     metabolites = [''A'', ''B'', ''E'', ''h''] \<rparr>"

definition st_dup :: redgem_state where
  "st_dup = init ex_dup [] [''h''] [] 1 [] [''X'', ''Y''] 0"

text \<open>A memo is sound when each of its entries lists exactly those paths.\<close>

definition memo_sound :: "ancestors \<Rightarrow> met_id \<Rightarrow> (met_id \<rightharpoonup> path list) \<Rightarrow> bool" where
  "memo_sound anc src pd \<longleftrightarrow> (\<forall>v ps. pd v = Some ps \<longrightarrow> set ps = {p. ancestor_path anc src v p})"

text \<open>
  The ancestors dictionary of the specification's example, and a state whose graph is the
  diamond A-B-D, A-C-D, with A in subsystem X and D in subsystem Y.
\<close>

definition anc_diamond :: ancestors where
  "anc_diamond = [''B'' \<mapsto> [''A''], ''C'' \<mapsto> [''A''], ''D'' \<mapsto> [''B'', ''C'']]"

definition st_diamond :: redgem_state where
  "st_diamond = (init \<lparr> reactions = [], metabolites = [] \<rparr> [] [] [] 2 [] [''X'', ''Y''] 0)
     \<lparr> digraph := [''A'' \<mapsto> [(''B'', ''r1''), (''C'', ''r2'')], ''B'' \<mapsto> [(''D'', ''r3'')],
                    ''C'' \<mapsto> [(''D'', ''r4'')], ''D'' \<mapsto> []],
       subsystem_metabolites_id := [''X'' \<mapsto> {''A''}, ''Y'' \<mapsto> {''D''}] \<rparr>"

text \<open>
  Two subsystems that share the metabolite B: the first reaction, of X, turns A into B and
  the second, of Y, turns B into C. The depth is 0.
\<close>

definition ex_shared :: network where
  "ex_shared = \<lparr> reactions =
       [\<lparr> rxn_id = ''r1'', rxn_subsystem = ''X'', rxn_metabolites = [(''A'', - 1), (''B'', 1)] \<rparr>,
        \<lparr> rxn_id = ''r2'', rxn_subsystem = ''Y'', rxn_metabolites = [(''B'', - 1), (''C'', 1)] \<rparr>],
     metabolites = [''A'', ''B'', ''C''] \<rparr>"

definition st_shared :: redgem_state where
  "st_shared = init ex_shared [] [] [] 0 [] [''X'', ''Y''] 0"

(*DEFS-END*)

section \<open>Properties\<close>

subsection \<open>Exceptions, dictionaries and loops\<close>

lemma bind_e_Inr [simp]: "bind_e (Inr x) f = f x"
  by (simp add: bind_e_def)

lemma bind_e_Inl [simp]: "bind_e (Inl e) f = Inl e"
  by (simp add: bind_e_def)

lemma bind_e_eq_Inr: "bind_e m f = Inr y \<longleftrightarrow> (\<exists>x. m = Inr x \<and> f x = Inr y)"
  by (cases m) simp_all

lemma bind_e_eq_Inl: "bind_e m f = Inl e \<longleftrightarrow> m = Inl e \<or> (\<exists>x. m = Inr x \<and> f x = Inl e)"
  by (cases m) simp_all

lemma getitem_Some [simp]: "m k = Some v \<Longrightarrow> getitem m k = Inr v"
  by (simp add: getitem_def)

lemma getitem_None [simp]: "m k = None \<Longrightarrow> getitem m k = Inl KeyError"
  by (simp add: getitem_def)

lemma getitem_eq_Inr: "getitem m k = Inr v \<longleftrightarrow> m k = Some v"
  by (simp add: getitem_def split: option.splits)

subsection \<open>The admission predicate of the subsystem search\<close>

text \<open>
  Claim C2. When the source subsystem \<open>i\<close> and the destination subsystem \<open>j\<close> have their
  metabolite-identifier sets \<open>Mi\<close> and \<open>Mj\<close>, \<open>is_node_allowed\<close> returns, and it admits the
  candidate exactly when the candidate is not explored, it is not the case that \<open>i \<noteq> j\<close> and
  the candidate is in \<open>Mi\<close>, it is not the case that \<open>s < D - 1\<close> and the candidate is in
  \<open>Mj\<close>, and it is not the case that \<open>s = D - 1\<close> and the candidate is not in \<open>Mj\<close>.
\<close>

theorem is_node_allowed_iff:
  assumes "subsystem_metabolites_id st i = Some Mi"
    and "subsystem_metabolites_id st j = Some Mj"
  shows "is_node_allowed st node s explored i j D =
           Inr (node \<notin> explored \<and> \<not> (i \<noteq> j \<and> node \<in> Mi) \<and> \<not> (s < D - 1 \<and> node \<in> Mj)
                \<and> \<not> (s = D - 1 \<and> node \<notin> Mj))"
  using assms by (simp add: is_node_allowed_def)

theorem is_node_allowed_iff_witness:
  "subsystem_metabolites_id st_xy ''X'' = Some {''A''}
   \<and> subsystem_metabolites_id st_xy ''Y'' = Some {''B''}
   \<and> is_node_allowed st_xy ''B'' 0 {''A''} ''X'' ''Y'' 1 = Inr True
   \<and> is_node_allowed st_xy ''B'' 0 {''A''} ''X'' ''Y'' 2 = Inr False
   \<and> is_node_allowed st_xy ''C'' 0 {''A''} ''X'' ''Y'' 2 = Inr True
   \<and> is_node_allowed st_xy ''A'' 1 {} ''X'' ''Y'' 3 = Inr False
   \<and> is_node_allowed st_xy ''A'' 1 {} ''X'' ''X'' 2 = Inr True"
proof -
  have x: "subsystem_metabolites_id st_xy ''X'' = Some {''A''}"
    and y: "subsystem_metabolites_id st_xy ''Y'' = Some {''B''}"
    by (simp_all add: st_xy_def)
  show ?thesis
    using x y is_node_allowed_iff [OF x y, of "''B''" 0 "{''A''}" 1]
      is_node_allowed_iff [OF x y, of "''B''" 0 "{''A''}" 2]
      is_node_allowed_iff [OF x y, of "''C''" 0 "{''A''}" 2]
      is_node_allowed_iff [OF x y, of "''A''" 1 "{}" 3]
      is_node_allowed_iff [OF x x, of "''A''" 1 "{}" 2]
    by simp
qed

subsection \<open>The scope of the path memo\<close>

lemma retrieve_memo_persists:
  "retrieve_all_paths fuel t s anc b pd = Inr (ps, pd') \<Longrightarrow> \<not> b \<Longrightarrow> v \<noteq> s \<Longrightarrow> pd v \<noteq> None
     \<Longrightarrow> pd' v = pd v"
  and "retrieve_previous fuel prevs t s anc pd acc = Inr (ps, pd') \<Longrightarrow> v \<noteq> s \<Longrightarrow> pd v \<noteq> None
     \<Longrightarrow> pd' v = pd v"
proof (induction fuel t s anc b pd and fuel prevs t s anc pd acc arbitrary: ps pd' and ps pd'
    rule: retrieve_all_paths_retrieve_previous.induct)
  case (1 dest_node src_node ancestors init_dict pd)
  then show ?case by simp
next
  case (2 fuel dest_node src_node ancestors init_dict pd)
  then show ?case
    apply (auto simp: Let_def split: option.splits sum.splits if_splits)
    by (metis option.distinct(1))
next
  case (3 fuel dest_node src_node ancestors pd new_paths)
  then show ?case by simp
next
  case (4 fuel previous_node rest dest_node src_node ancestors pd new_paths)
  then show ?case
    by (auto simp: Let_def split: option.splits sum.splits if_splits)
qed

text \<open>
  Claim C5, as stated, fails: the memo does not persist across the frontier destinations
  of one search. After the loop over the frontier D1, D2 of the search from A, the memo
  holds the entry of D2 and none for D1: the call for D2 started from an empty memo.
\<close>

theorem path_memo_across_destinations_counterexample:
  "map_sum id (\<lambda>st. (path_dict st ''D1'', path_dict st ''D2''))
     (foldM_e (record_destination 3 ''X'' ''Y'' 2 ''A'' anc_fork) [''D1'', ''D2''] st_fork)
   = Inr (None, Some [[''A'', ''B'', ''D2'']])"
  by code_simp

text \<open>
  Claim C5, amended. Every top-level call of \<open>retrieve_all_paths\<close>, one for each frontier
  destination of a subsystem or extracellular search, starts from an empty memo: what the
  loop body does is the same for every memo it finds. Inside one such call the memo
  persists: the recursive calls keep every entry other than the source's, and a node that
  has an entry gets it back without being computed again.
\<close>

theorem path_memo_scope:
  "record_destination fuel i j d m anc node (st\<lparr> path_dict := pd \<rparr>)
     = record_destination fuel i j d m anc node (st\<lparr> path_dict := Map.empty \<rparr>)
   \<and> record_destination_extracellular fuel i d m anc node (st\<lparr> path_dict := pd \<rparr>)
     = record_destination_extracellular fuel i d m anc node (st\<lparr> path_dict := Map.empty \<rparr>)
   \<and> (retrieve_all_paths fuel t s anc False pd = Inr (ps, pd')
        \<longrightarrow> (\<forall>v. v \<noteq> s \<longrightarrow> pd v \<noteq> None \<longrightarrow> pd' v = pd v))
   \<and> (pd t = Some ps \<longrightarrow> t \<noteq> s
        \<longrightarrow> retrieve_all_paths (Suc fuel) t s anc False pd = Inr (ps, pd))"
proof (intro conjI)
  show "record_destination fuel i j d m anc node (st\<lparr> path_dict := pd \<rparr>)
     = record_destination fuel i j d m anc node (st\<lparr> path_dict := Map.empty \<rparr>)"
    by (cases fuel) (simp_all add: record_destination_def)
  show "record_destination_extracellular fuel i d m anc node (st\<lparr> path_dict := pd \<rparr>)
     = record_destination_extracellular fuel i d m anc node (st\<lparr> path_dict := Map.empty \<rparr>)"
    by (cases fuel) (simp_all add: record_destination_extracellular_def)
  show "retrieve_all_paths fuel t s anc False pd = Inr (ps, pd')
        \<longrightarrow> (\<forall>v. v \<noteq> s \<longrightarrow> pd v \<noteq> None \<longrightarrow> pd' v = pd v)"
    using retrieve_memo_persists(1) [of fuel t s anc False pd ps pd'] by blast
  show "pd t = Some ps \<longrightarrow> t \<noteq> s
        \<longrightarrow> retrieve_all_paths (Suc fuel) t s anc False pd = Inr (ps, pd)"
    by simp
qed

theorem path_memo_scope_witness:
  "(\<exists>ps pd'. retrieve_all_paths 3 ''D1'' ''A'' anc_fork False memo_b = Inr (ps, pd')
       \<and> memo_b ''B'' \<noteq> None \<and> pd' ''B'' = memo_b ''B'')
   \<and> memo_b ''B'' = Some [[''A'', ''B'']]
   \<and> retrieve_all_paths (Suc 0) ''B'' ''A'' anc_fork False memo_b = Inr ([[''A'', ''B'']], memo_b)"
proof -
  have b: "memo_b ''B'' = Some [[''A'', ''B'']]"
    by (simp add: memo_b_def)
  have "\<exists>ps pd'. retrieve_all_paths 3 ''D1'' ''A'' anc_fork False memo_b = Inr (ps, pd')"
    by (simp add: anc_fork_def memo_b_def eval_nat_numeral)
  then obtain ps pd'
    where r: "retrieve_all_paths 3 ''D1'' ''A'' anc_fork False memo_b = Inr (ps, pd')"
    by blast
  have "pd' ''B'' = memo_b ''B''"
    using path_memo_scope [where fuel = 3 and t = "''D1''" and s = "''A''" and anc = anc_fork
        and pd = memo_b and ps = ps and pd' = pd' and st = st_fork] r b
    by simp
  moreover have "retrieve_all_paths (Suc 0) ''B'' ''A'' anc_fork False memo_b
      = Inr ([[''A'', ''B'']], memo_b)"
    using path_memo_scope [where fuel = 0 and t = "''B''" and s = "''A''" and anc = anc_fork
        and pd = memo_b and ps = "[[''A'', ''B'']]" and st = st_fork] b
    by simp
  ultimately show ?thesis
    using r b by auto
qed

subsection \<open>Loops with exceptions\<close>

lemma foldM_e_append: "foldM_e f (xs @ ys) s = bind_e (foldM_e f xs s) (foldM_e f ys)"
  by (induction xs arbitrary: s) (auto simp: bind_e_def split: sum.splits)

lemma foldM_e_invariant:
  assumes "foldM_e f xs s = Inr s'" and "I s"
    and "\<And>x s s'. x \<in> set xs \<Longrightarrow> I s \<Longrightarrow> f x s = Inr s' \<Longrightarrow> I s'"
  shows "I s'"
  using assms
proof (induction xs arbitrary: s)
  case Nil
  then show ?case by simp
next
  case (Cons x xs)
  from Cons.prems(1) obtain s1 where s1: "f x s = Inr s1" "foldM_e f xs s1 = Inr s'"
    by (auto simp: bind_e_eq_Inr)
  have "I s1" using Cons.prems(2) Cons.prems(3) [of x s s1] s1(1) by simp
  show ?case
    by (rule Cons.IH [OF s1(2) \<open>I s1\<close>]) (use Cons.prems(3) in \<open>meson list.set_intros(2)\<close>)
qed

lemma foldM_e_total:
  assumes "I s"
    and "\<And>x s. x \<in> set xs \<Longrightarrow> I s \<Longrightarrow> \<exists>s'. f x s = Inr s' \<and> I s'"
  shows "\<exists>s'. foldM_e f xs s = Inr s' \<and> I s'"
  using assms
proof (induction xs arbitrary: s)
  case Nil
  then show ?case by simp
next
  case (Cons x xs)
  from Cons.prems(2) [of x s] Cons.prems(1) obtain s1 where s1: "f x s = Inr s1" "I s1"
    by auto
  have "\<exists>s'. foldM_e f xs s1 = Inr s' \<and> I s'"
    by (rule Cons.IH [OF s1(2)]) (use Cons.prems(2) in \<open>meson list.set_intros(2)\<close>)
  then show ?case using s1(1) by simp
qed

lemma foldM_e_establish:
  assumes "foldM_e f xs s = Inr s'" and "I s" and "x0 \<in> set xs"
    and inv: "\<And>x s s'. x \<in> set xs \<Longrightarrow> I s \<Longrightarrow> f x s = Inr s' \<Longrightarrow> I s'"
    and est: "\<And>s s'. I s \<Longrightarrow> f x0 s = Inr s' \<Longrightarrow> Q s'"
    and keep: "\<And>x s s'. x \<in> set xs \<Longrightarrow> I s \<Longrightarrow> Q s \<Longrightarrow> f x s = Inr s' \<Longrightarrow> Q s'"
  shows "Q s'"
  using assms(1,2,3,4,6)
proof (induction xs arbitrary: s)
  case Nil
  then show ?case by simp
next
  case (Cons x xs)
  from Cons.prems(1) obtain s1 where s1: "f x s = Inr s1" "foldM_e f xs s1 = Inr s'"
    by (auto simp: bind_e_eq_Inr)
  have I1: "I s1" using Cons.prems(2) Cons.prems(4) [of x s s1] s1(1) by simp
  have inv': "\<And>y t t'. y \<in> set xs \<Longrightarrow> I t \<Longrightarrow> f y t = Inr t' \<Longrightarrow> I t'"
    using Cons.prems(4) by (meson list.set_intros(2))
  have keep': "\<And>y t t'. y \<in> set xs \<Longrightarrow> I t \<Longrightarrow> Q t \<Longrightarrow> f y t = Inr t' \<Longrightarrow> Q t'"
    using Cons.prems(5) by (meson list.set_intros(2))
  show ?case
  proof (cases "x0 \<in> set xs")
    case True
    show ?thesis
      by (rule Cons.IH [OF s1(2) I1 True inv' keep'])
  next
    case False
    then have "x = x0" using Cons.prems(3) by simp
    then have Q1: "Q s1" using Cons.prems(2) est s1(1) by blast
    have "I s' \<and> Q s'"
    proof (rule foldM_e_invariant [where I = "\<lambda>s. I s \<and> Q s", OF s1(2)])
      show "I s1 \<and> Q s1" using I1 Q1 by simp
    next
      fix y t t' assume "y \<in> set xs" "I t \<and> Q t" "f y t = Inr t'"
      then show "I t' \<and> Q t'" using inv' keep' by blast
    qed
    then show ?thesis by simp
  qed
qed

subsection \<open>The minimum distance between subsystems\<close>

lemma index_in_range: "0 \<le> k \<Longrightarrow> k < int (length xs) \<Longrightarrow> index xs k = Inr (xs ! nat k)"
  by (simp add: index_def)

lemma get3_shaped:
  assumes "shaped3 names d m" "i \<in> set names" "j \<in> set names" "0 \<le> k" "k \<le> d"
  shows "\<exists>s. get3 m i j k = Inr s"
proof -
  from assms(1,2) obtain mi where mi: "m i = Some mi" "shaped2 names d mi"
    by (auto simp: shaped3_def)
  from mi(2) assms(3) obtain l where l: "mi j = Some l" "length l = nat (d + 1)"
    by (auto simp: shaped2_def)
  have "k < int (length l)" using l(2) assms(4,5) by simp
  then show ?thesis
    using mi(1) l(1) assms(4) by (simp add: get3_def get2_def index_in_range)
qed

lemma scan_depths_result:
  assumes "\<forall>k \<in> set ks. \<exists>s. get3 ip i j k = Inr s"
  shows "(\<exists>k pre post. scan_depths ip i j ks = Inr (Some k) \<and> ks = pre @ k # post
             \<and> get3 ip i j k \<noteq> Inr {} \<and> (\<forall>k' \<in> set pre. get3 ip i j k' = Inr {}))
         \<or> (scan_depths ip i j ks = Inr None \<and> (\<forall>k \<in> set ks. get3 ip i j k = Inr {}))"
  using assms
proof (induction ks)
  case Nil
  then show ?case by simp
next
  case (Cons x ks)
  then obtain s where s: "get3 ip i j x = Inr s" by auto
  show ?case
  proof (cases "s = {}")
    case False
    have "scan_depths ip i j (x # ks) = Inr (Some x)" using s False by simp
    moreover have "x # ks = [] @ x # ks" by simp
    moreover have "get3 ip i j x \<noteq> Inr {}" using s False by simp
    ultimately show ?thesis by fastforce
  next
    case True
    have step: "scan_depths ip i j (x # ks) = scan_depths ip i j ks"
      using s True by simp
    have x0: "get3 ip i j x = Inr {}" using s True by simp
    have "\<forall>k \<in> set ks. \<exists>s. get3 ip i j k = Inr s" using Cons.prems by simp
    from Cons.IH [OF this] show ?thesis
    proof (elim disjE exE conjE)
      fix k pre post
      assume a: "scan_depths ip i j ks = Inr (Some k)" "ks = pre @ k # post"
        "get3 ip i j k \<noteq> Inr {}" "\<forall>k' \<in> set pre. get3 ip i j k' = Inr {}"
      have "x # ks = (x # pre) @ k # post" using a(2) by simp
      moreover have "\<forall>k' \<in> set (x # pre). get3 ip i j k' = Inr {}" using a(4) x0 by simp
      ultimately show ?thesis using a(1,3) step by metis
    next
      assume "scan_depths ip i j ks = Inr None" "\<forall>k \<in> set ks. get3 ip i j k = Inr {}"
      then show ?thesis using step x0 by simp
    qed
  qed
qed

lemma upto_split_unique:
  assumes "[a..b] = pre @ k # post"
  shows "a \<le> k \<and> k \<le> b \<and> set pre = {a..<k}"
proof -
  have "k \<in> set [a..b]" using assms by simp
  then have ab: "a \<le> k" "k \<le> b" by simp_all
  then have split: "[a..b] = [a..k - 1] @ k # [k + 1..b]" by (rule upto_split3)
  have "distinct (pre @ k # post)" using assms distinct_upto [of a b] by simp
  then have "k \<notin> set pre" "k \<notin> set post" by simp_all
  moreover have "k \<notin> set [a..k - 1]" "k \<notin> set [k + 1..b]" by simp_all
  ultimately have "pre = [a..k - 1]"
    using assms split by (metis append_Cons_eq_iff)
  then have "set pre = {a..<k}" by auto
  then show ?thesis using ab by simp
qed

lemma scan_depths_range:
  assumes "shaped3 names d ip" "i \<in> set names" "j \<in> set names"
  shows "(\<exists>k. scan_depths ip i j (py_range (d + 1)) = Inr (Some k) \<and> 0 \<le> k \<and> k \<le> d
             \<and> get3 ip i j k \<noteq> Inr {} \<and> (\<forall>k'. 0 \<le> k' \<and> k' < k \<longrightarrow> get3 ip i j k' = Inr {}))
         \<or> (scan_depths ip i j (py_range (d + 1)) = Inr None
             \<and> (\<forall>k. 0 \<le> k \<and> k \<le> d \<longrightarrow> get3 ip i j k = Inr {}))"
proof -
  have r: "py_range (d + 1) = [0..d]" by (simp add: py_range_def)
  have "\<forall>k \<in> set [0..d]. \<exists>s. get3 ip i j k = Inr s"
    using get3_shaped [OF assms] by simp
  from scan_depths_result [OF this] show ?thesis
  proof (elim disjE exE conjE)
    fix k pre post
    assume a: "scan_depths ip i j [0..d] = Inr (Some k)" "[0..d] = pre @ k # post"
      "get3 ip i j k \<noteq> Inr {}" "\<forall>k' \<in> set pre. get3 ip i j k' = Inr {}"
    from upto_split_unique [OF a(2)] have k: "0 \<le> k" "k \<le> d" "set pre = {0..<k}" by simp_all
    have "\<forall>k'. 0 \<le> k' \<and> k' < k \<longrightarrow> get3 ip i j k' = Inr {}"
      using a(4) k(3) by simp
    then show ?thesis using a(1,3) k(1,2) r by simp
  next
    assume "scan_depths ip i j [0..d] = Inr None" "\<forall>k \<in> set [0..d]. get3 ip i j k = Inr {}"
    then show ?thesis using r by simp
  qed
qed

lemma min_distance_pair_step:
  assumes sh: "shaped3 (subsystem_names st0) (depth_d st0) (intermediate_paths st0)"
    and inv: "md_inv st0 st"
    and i: "i \<in> set (subsystem_names st0)" and j: "j \<in> set (subsystem_names st0)"
  shows "\<exists>st'. min_distance_pair i j st = Inr st' \<and> md_inv st0 st' \<and> md_done st0 i j st'
           \<and> (\<forall>i' j'. md_done st0 i' j' st \<longrightarrow> md_done st0 i' j' st')"
proof -
  from inv obtain md where md: "st = st0\<lparr> min_distance_sub_to_sub := md \<rparr>"
    "shaped_int (subsystem_names st0) md"
    "\<forall>i j. min_distance md i j = min_distance (min_distance_sub_to_sub st0) i j
           \<or> (first_depth st0 i j \<noteq> None \<and> min_distance md i j = first_depth st0 i j)"
    by (auto simp: md_inv_def)
  from md(2) i j obtain mi v where mi: "md i = Some mi" "mi j = Some v"
    by (fastforce simp: shaped_int_def)
  have fields: "intermediate_paths st = intermediate_paths st0" "depth_d st = depth_d st0"
    "min_distance_sub_to_sub st = md"
    using md(1) by simp_all
  from scan_depths_range [OF sh i j]
  obtain r where r: "scan_depths (intermediate_paths st0) i j (py_range (depth_d st0 + 1)) = Inr r"
    by blast
  then have fd: "first_depth st0 i j = r" by (simp add: first_depth_def)
  show ?thesis
  proof (cases r)
    case None
    have run: "min_distance_pair i j st = Inr st"
      using r None mi fields by (simp add: min_distance_pair_def)
    have "md_done st0 i j st"
      using md(3) [rule_format, of i j] fd None fields by (auto simp: md_done_def)
    then show ?thesis using run inv by simp
  next
    case (Some k)
    let ?md' = "md(i \<mapsto> mi(j \<mapsto> k))"
    let ?st' = "st0\<lparr> min_distance_sub_to_sub := ?md' \<rparr>"
    have run: "min_distance_pair i j st = Inr ?st'"
      using r Some mi fields md(1) by (simp add: min_distance_pair_def)
    have look: "\<And>i' j'. min_distance ?md' i' j'
        = (if i' = i \<and> j' = j then Some k else min_distance md i' j')"
      using mi by (simp add: min_distance_def)
    have sh': "shaped_int (subsystem_names st0) ?md'"
      using md(2) mi by (auto simp: shaped_int_def)
    have inv': "md_inv st0 ?st'"
      unfolding md_inv_def
    proof (intro exI conjI allI)
      show "?st' = st0\<lparr> min_distance_sub_to_sub := ?md' \<rparr>" by simp
      show "shaped_int (subsystem_names st0) ?md'" by (rule sh')
      fix i' j'
      show "min_distance ?md' i' j' = min_distance (min_distance_sub_to_sub st0) i' j'
          \<or> (first_depth st0 i' j' \<noteq> None \<and> min_distance ?md' i' j' = first_depth st0 i' j')"
        using md(3) [rule_format, of i' j'] fd Some by (auto simp: look)
    qed
    have fin: "md_done st0 i j ?st'"
      using fd Some by (simp add: md_done_def look)
    have keep: "\<forall>i' j'. md_done st0 i' j' st \<longrightarrow> md_done st0 i' j' ?st'"
      using fd Some fields by (simp add: md_done_def look)
    show ?thesis using run inv' fin keep by simp
  qed
qed

lemma min_distance_row:
  assumes sh: "shaped3 (subsystem_names st0) (depth_d st0) (intermediate_paths st0)"
    and inv: "md_inv st0 st"
    and i: "i \<in> set (subsystem_names st0)"
  shows "\<exists>st'. foldM_e (min_distance_pair i) (subsystem_names st0) st = Inr st' \<and> md_inv st0 st'
           \<and> (\<forall>j \<in> set (subsystem_names st0). md_done st0 i j st')
           \<and> (\<forall>i' j'. md_done st0 i' j' st \<longrightarrow> md_done st0 i' j' st')"
proof -
  let ?f = "min_distance_pair i" and ?names = "subsystem_names st0"
  have "\<exists>st'. foldM_e ?f ?names st = Inr st' \<and> md_inv st0 st'"
    by (rule foldM_e_total [where I = "md_inv st0", OF inv])
       (use min_distance_pair_step [OF sh _ i] in blast)
  then obtain st' where st': "foldM_e ?f ?names st = Inr st'" "md_inv st0 st'" by blast
  have est: "md_done st0 i j st'" if j: "j \<in> set ?names" for j
  proof (rule foldM_e_establish [where I = "md_inv st0" and Q = "md_done st0 i j", OF st'(1) inv j])
    show "\<And>x s s'. x \<in> set ?names \<Longrightarrow> md_inv st0 s \<Longrightarrow> ?f x s = Inr s' \<Longrightarrow> md_inv st0 s'"
      using min_distance_pair_step [OF sh _ i] by fastforce
    show "\<And>s s'. md_inv st0 s \<Longrightarrow> ?f j s = Inr s' \<Longrightarrow> md_done st0 i j s'"
      using min_distance_pair_step [OF sh _ i j] by fastforce
    show "\<And>x s s'. x \<in> set ?names \<Longrightarrow> md_inv st0 s \<Longrightarrow> md_done st0 i j s \<Longrightarrow> ?f x s = Inr s'
        \<Longrightarrow> md_done st0 i j s'"
      using min_distance_pair_step [OF sh _ i] by fastforce
  qed
  have keep: "md_done st0 i' j' st'" if "md_done st0 i' j' st" for i' j'
  proof -
    have "md_inv st0 st' \<and> md_done st0 i' j' st'"
    proof (rule foldM_e_invariant [where I = "\<lambda>s. md_inv st0 s \<and> md_done st0 i' j' s", OF st'(1)])
      show "md_inv st0 st \<and> md_done st0 i' j' st" using inv that by simp
      show "\<And>x s s'. x \<in> set ?names \<Longrightarrow> md_inv st0 s \<and> md_done st0 i' j' s \<Longrightarrow> ?f x s = Inr s'
          \<Longrightarrow> md_inv st0 s' \<and> md_done st0 i' j' s'"
        using min_distance_pair_step [OF sh _ i] by fastforce
    qed
    then show ?thesis by simp
  qed
  show ?thesis using st' est keep by blast
qed

lemma min_distance_all:
  assumes sh: "shaped3 (subsystem_names st0) (depth_d st0) (intermediate_paths st0)"
    and shi: "shaped_int (subsystem_names st0) (min_distance_sub_to_sub st0)"
    and i: "i \<in> set (subsystem_names st0)" and j: "j \<in> set (subsystem_names st0)"
  shows "\<exists>st'. foldM_e (\<lambda>i. foldM_e (min_distance_pair i) (subsystem_names st0))
                  (subsystem_names st0) st0 = Inr st'
           \<and> md_inv st0 st' \<and> md_done st0 i j st'"
proof -
  let ?f = "\<lambda>i. foldM_e (min_distance_pair i) (subsystem_names st0)"
  let ?names = "subsystem_names st0"
  have inv0: "md_inv st0 st0"
    unfolding md_inv_def using shi by (intro exI [of _ "min_distance_sub_to_sub st0"]) simp
  have "\<exists>st'. foldM_e ?f ?names st0 = Inr st' \<and> md_inv st0 st'"
    by (rule foldM_e_total [where I = "md_inv st0", OF inv0])
       (use min_distance_row [OF sh] in blast)
  then obtain st' where st': "foldM_e ?f ?names st0 = Inr st'" "md_inv st0 st'" by blast
  have "md_done st0 i j st'"
  proof (rule foldM_e_establish [where I = "md_inv st0" and Q = "md_done st0 i j", OF st'(1) inv0 i])
    show "\<And>x s s'. x \<in> set ?names \<Longrightarrow> md_inv st0 s \<Longrightarrow> ?f x s = Inr s' \<Longrightarrow> md_inv st0 s'"
      using min_distance_row [OF sh] by fastforce
    show "\<And>s s'. md_inv st0 s \<Longrightarrow> ?f i s = Inr s' \<Longrightarrow> md_done st0 i j s'"
      using min_distance_row [OF sh _ i] j by fastforce
    show "\<And>x s s'. x \<in> set ?names \<Longrightarrow> md_inv st0 s \<Longrightarrow> md_done st0 i j s \<Longrightarrow> ?f x s = Inr s'
        \<Longrightarrow> md_done st0 i j s'"
      using min_distance_row [OF sh] by fastforce
  qed
  then show ?thesis using st' by blast
qed

lemma paths_of_depth_get3:
  "get3 (intermediate_paths st) i j k = Inr s \<Longrightarrow> paths_of_depth st i j k = s"
  by (simp add: paths_of_depth_def)

text \<open>
  Claim C8. On a state whose path-result and min-distance containers have the shape given
  by the constructor, \<open>find_min_distance_between_subsystems\<close> returns, it changes the
  min-distance dictionary only, and for every ordered pair (i, j) of configured subsystems
  the entry is the smallest \<open>k\<close> in \<open>0..d\<close> whose (i, j, k) path-result set is not empty;
  when there is no such \<open>k\<close> the entry is left as it was.
\<close>

theorem min_distance_is_first_nonempty_depth:
  assumes "shaped3 (subsystem_names st) (depth_d st) (intermediate_paths st)"
    and "shaped_int (subsystem_names st) (min_distance_sub_to_sub st)"
    and "i \<in> set (subsystem_names st)" and "j \<in> set (subsystem_names st)"
  shows "\<exists>md. find_min_distance_between_subsystems st
                 = Inr (md, st\<lparr> min_distance_sub_to_sub := md \<rparr>)
           \<and> ((\<exists>k. 0 \<le> k \<and> k \<le> depth_d st \<and> paths_of_depth st i j k \<noteq> {}
                    \<and> (\<forall>k'. 0 \<le> k' \<and> k' < k \<longrightarrow> paths_of_depth st i j k' = {})
                    \<and> min_distance md i j = Some k)
                \<or> ((\<forall>k. 0 \<le> k \<and> k \<le> depth_d st \<longrightarrow> paths_of_depth st i j k = {})
                    \<and> min_distance md i j = min_distance (min_distance_sub_to_sub st) i j))"
proof -
  from min_distance_all [OF assms] obtain st'
    where st': "foldM_e (\<lambda>i. foldM_e (min_distance_pair i) (subsystem_names st))
                  (subsystem_names st) st = Inr st'" "md_inv st st'" "md_done st i j st'"
    by blast
  from st'(2) obtain md where md: "st' = st\<lparr> min_distance_sub_to_sub := md \<rparr>"
    by (auto simp: md_inv_def)
  have run: "find_min_distance_between_subsystems st
      = Inr (md, st\<lparr> min_distance_sub_to_sub := md \<rparr>)"
    using st'(1) md by (simp add: find_min_distance_between_subsystems_def)
  have val: "min_distance md i j =
       (case first_depth st i j of
          None \<Rightarrow> min_distance (min_distance_sub_to_sub st) i j | Some k \<Rightarrow> Some k)"
    using st'(3) md by (simp add: md_done_def)
  have succ: "\<And>k. 0 \<le> k \<Longrightarrow> k \<le> depth_d st
      \<Longrightarrow> get3 (intermediate_paths st) i j k = Inr (paths_of_depth st i j k)"
    using get3_shaped [OF assms(1,3,4)] paths_of_depth_get3 by metis
  from scan_depths_range [OF assms(1,3,4)] show ?thesis
  proof (elim disjE exE conjE)
    fix k
    assume a: "scan_depths (intermediate_paths st) i j (py_range (depth_d st + 1)) = Inr (Some k)"
      "0 \<le> k" "k \<le> depth_d st" "get3 (intermediate_paths st) i j k \<noteq> Inr {}"
      "\<forall>k'. 0 \<le> k' \<and> k' < k \<longrightarrow> get3 (intermediate_paths st) i j k' = Inr {}"
    have "first_depth st i j = Some k" using a(1) by (simp add: first_depth_def)
    then have "min_distance md i j = Some k" using val by simp
    moreover have "paths_of_depth st i j k \<noteq> {}" using succ [OF a(2,3)] a(4) by auto
    moreover have "\<forall>k'. 0 \<le> k' \<and> k' < k \<longrightarrow> paths_of_depth st i j k' = {}"
      using a(5) paths_of_depth_get3 by blast
    ultimately show ?thesis using run a(2,3) by blast
  next
    assume a: "scan_depths (intermediate_paths st) i j (py_range (depth_d st + 1)) = Inr None"
      "\<forall>k. 0 \<le> k \<and> k \<le> depth_d st \<longrightarrow> get3 (intermediate_paths st) i j k = Inr {}"
    have "first_depth st i j = None" using a(1) by (simp add: first_depth_def)
    then have "min_distance md i j = min_distance (min_distance_sub_to_sub st) i j"
      using val by simp
    moreover have "\<forall>k. 0 \<le> k \<and> k \<le> depth_d st \<longrightarrow> paths_of_depth st i j k = {}"
      using a(2) paths_of_depth_get3 by blast
    ultimately show ?thesis using run by blast
  qed
qed

lemma fold_upd_const:
  "fold (\<lambda>name m. m(name \<mapsto> v)) names m0 = (\<lambda>k. if k \<in> set names then Some v else m0 k)"
  by (induction names arbitrary: m0) (auto simp: fun_eq_iff)

lemma empty_slots: "map (\<lambda>_. {}) (py_range (d + 1)) = replicate (nat (d + 1)) {}"
  by (simp add: py_range_def map_replicate_const)

lemma dict_of_lists_of_sets_apply:
  "dict_of_lists_of_sets names d name
     = (if name \<in> set names then Some (replicate (nat (d + 1)) {}) else None)"
  by (simp add: dict_of_lists_of_sets_def fold_upd_const empty_slots)

lemma dict_of_dicts_of_lists_of_sets_apply:
  "dict_of_dicts_of_lists_of_sets names d name
     = (if name \<in> set names then Some (dict_of_lists_of_sets names d) else None)"
  by (simp add: dict_of_dicts_of_lists_of_sets_def fold_upd_const)

lemma dict_of_dicts_of_int_apply:
  "dict_of_dicts_of_int names i
     = (if i \<in> set names then Some (\<lambda>j. if j \<in> set names then Some (- 1) else None) else None)"
  by (simp add: dict_of_dicts_of_int_def dict_of_int_def fold_upd_const)

lemma shaped2_init: "shaped2 names d (dict_of_lists_of_sets names d)"
  by (simp add: shaped2_def dict_of_lists_of_sets_apply)

lemma shaped3_init: "shaped3 names d (dict_of_dicts_of_lists_of_sets names d)"
  by (simp add: shaped3_def dict_of_dicts_of_lists_of_sets_apply shaped2_init)

lemma shaped_int_init: "shaped_int names (dict_of_dicts_of_int names)"
  by (simp add: shaped_int_def dict_of_dicts_of_int_apply)

lemma sentinel_init:
  "i \<in> set names \<Longrightarrow> j \<in> set names \<Longrightarrow> min_distance (dict_of_dicts_of_int names) i j = Some (- 1)"
  by (simp add: min_distance_def dict_of_dicts_of_int_apply)

lemma st_found_paths:
  "paths_of_depth st_found ''X'' ''Y'' 0 = {}"
  "paths_of_depth st_found ''X'' ''Y'' 1 = {}"
  "paths_of_depth st_found ''X'' ''Y'' 2 = {[''A'', ''B'', ''D1'']}"
  "paths_of_depth st_found ''X'' ''X'' 0 = {}"
  "paths_of_depth st_found ''X'' ''X'' 1 = {}"
  "paths_of_depth st_found ''X'' ''X'' 2 = {}"
  by (simp_all add: paths_of_depth_def st_found_def get3_def get2_def index_def)

theorem min_distance_is_first_nonempty_depth_witness:
  "shaped3 (subsystem_names st_found) (depth_d st_found) (intermediate_paths st_found)
   \<and> shaped_int (subsystem_names st_found) (min_distance_sub_to_sub st_found)
   \<and> ''X'' \<in> set (subsystem_names st_found) \<and> ''Y'' \<in> set (subsystem_names st_found)
   \<and> (\<exists>md. find_min_distance_between_subsystems st_found
               = Inr (md, st_found\<lparr> min_distance_sub_to_sub := md \<rparr>)
          \<and> min_distance md ''X'' ''Y'' = Some 2 \<and> min_distance md ''X'' ''X'' = Some (- 1))"
proof -
  have names: "subsystem_names st_found = [''X'', ''Y'']" and d: "depth_d st_found = 2"
    by (simp_all add: st_found_def st_fork_def init_def)
  have md0: "min_distance_sub_to_sub st_found = dict_of_dicts_of_int [''X'', ''Y'']"
    by (simp add: st_found_def st_fork_def init_def)
  have h1: "shaped3 (subsystem_names st_found) (depth_d st_found) (intermediate_paths st_found)"
    unfolding names d
    by (simp add: st_found_def st_fork_def init_def shaped3_def shaped2_def
        dict_of_dicts_of_lists_of_sets_apply dict_of_lists_of_sets_apply)
  have h2: "shaped_int (subsystem_names st_found) (min_distance_sub_to_sub st_found)"
    unfolding names md0 by (rule shaped_int_init)
  have x: "''X'' \<in> set (subsystem_names st_found)" and y: "''Y'' \<in> set (subsystem_names st_found)"
    by (simp_all add: names)
  from min_distance_is_first_nonempty_depth [OF h1 h2 x y] obtain md
    where md: "find_min_distance_between_subsystems st_found
                 = Inr (md, st_found\<lparr> min_distance_sub_to_sub := md \<rparr>)"
      and xy: "(\<exists>k. 0 \<le> k \<and> k \<le> depth_d st_found \<and> paths_of_depth st_found ''X'' ''Y'' k \<noteq> {}
                    \<and> (\<forall>k'. 0 \<le> k' \<and> k' < k \<longrightarrow> paths_of_depth st_found ''X'' ''Y'' k' = {})
                    \<and> min_distance md ''X'' ''Y'' = Some k)
                \<or> ((\<forall>k. 0 \<le> k \<and> k \<le> depth_d st_found \<longrightarrow> paths_of_depth st_found ''X'' ''Y'' k = {})
                    \<and> min_distance md ''X'' ''Y''
                        = min_distance (min_distance_sub_to_sub st_found) ''X'' ''Y'')"
    by blast
  from min_distance_is_first_nonempty_depth [OF h1 h2 x x] md
  have xx: "(\<exists>k. 0 \<le> k \<and> k \<le> depth_d st_found \<and> paths_of_depth st_found ''X'' ''X'' k \<noteq> {}
                    \<and> (\<forall>k'. 0 \<le> k' \<and> k' < k \<longrightarrow> paths_of_depth st_found ''X'' ''X'' k' = {})
                    \<and> min_distance md ''X'' ''X'' = Some k)
                \<or> ((\<forall>k. 0 \<le> k \<and> k \<le> depth_d st_found \<longrightarrow> paths_of_depth st_found ''X'' ''X'' k = {})
                    \<and> min_distance md ''X'' ''X''
                        = min_distance (min_distance_sub_to_sub st_found) ''X'' ''X'')"
    by auto
  have three: "\<And>k::int. 0 \<le> k \<Longrightarrow> k \<le> 2 \<Longrightarrow> k = 0 \<or> k = 1 \<or> k = 2" by arith
  have "min_distance md ''X'' ''Y'' = Some 2"
    using xy three st_found_paths(1,2,3) unfolding d by fastforce
  moreover have "min_distance md ''X'' ''X'' = Some (- 1)"
    using xx three st_found_paths(4,5,6) sentinel_init [of "''X''" "[''X'', ''Y'']" "''X''"]
    unfolding d md0 by fastforce
  ultimately show ?thesis using h1 h2 x y md by blast
qed

subsection \<open>What the pruner changes\<close>

lemma mets_of_filter_subset: "mets_of (filter P rs) \<subseteq> mets_of rs"
  by (auto simp: mets_of_def)

text \<open>
  Claim C9. When \<open>extract_sub_network\<close> returns, the new state differs from the old one in
  the working copy only, and the working copy is the old one after the removal of the
  reactions in to-remove-reactions, with removal of orphans: the original network is
  unchanged, the reactions left are those not in the set, no metabolite is added, and a
  metabolite disappears only if no reaction that is left uses it. The set
  to-remove-metabolites is computed and not used for the removal.
\<close>

theorem extract_sub_network_frame:
  assumes "extract_sub_network st = Inr ((to_remove_metabolites, to_remove_reactions), st')"
  shows "st' = st\<lparr> redgem := remove_reactions to_remove_reactions True (redgem st) \<rparr>
         \<and> gem st' = gem st
         \<and> reactions (redgem st')
             = filter (\<lambda>r. rxn_id r \<notin> to_remove_reactions) (reactions (redgem st))
         \<and> set (metabolites (redgem st')) \<subseteq> set (metabolites (redgem st))
         \<and> (\<forall>m \<in> set (metabolites (redgem st)).
               m \<in> set (metabolites (redgem st')) \<or> m \<notin> mets_of (reactions (redgem st')))"
  using assms
  by (auto simp: extract_sub_network_def bind_e_eq_Inr remove_reactions_def Let_def)

lemma st_prune_run:
  "extract_sub_network st_prune
     = Inr (({''C'', ''D'', ''h''}, {''r2'', ''r3''}),
            st_prune\<lparr> redgem := \<lparr> reactions = [hd (reactions ex_net)],
                                   metabolites = [''A'', ''B'', ''h''] \<rparr> \<rparr>)"
  by (simp add: extract_sub_network_def to_remove_def st_prune_def init_def ex_net_def
      py_range_def keep_subsystem_def keep_intermediate_def keep_extracellular_def
      dict_of_dicts_of_lists_of_sets_apply dict_of_lists_of_sets_apply get3_def get2_def index_def
      remove_reactions_def mets_of_def Let_def)

theorem extract_sub_network_frame_witness:
  "extract_sub_network st_prune
     = Inr (({''C'', ''D'', ''h''}, {''r2'', ''r3''}),
            st_prune\<lparr> redgem := \<lparr> reactions = [hd (reactions ex_net)],
                                   metabolites = [''A'', ''B'', ''h''] \<rparr> \<rparr>)
   \<and> remove_reactions {''r2'', ''r3''} True (redgem st_prune)
       = \<lparr> reactions = [hd (reactions ex_net)], metabolites = [''A'', ''B'', ''h''] \<rparr>
   \<and> gem (st_prune\<lparr> redgem := \<lparr> reactions = [hd (reactions ex_net)],
                                  metabolites = [''A'', ''B'', ''h''] \<rparr> \<rparr>) = ex_net
   \<and> ''h'' \<in> {''C'', ''D'', ''h''}"
proof -
  let ?st' = "st_prune\<lparr> redgem := \<lparr> reactions = [hd (reactions ex_net)],
                                      metabolites = [''A'', ''B'', ''h''] \<rparr> \<rparr>"
  note frame = extract_sub_network_frame [OF st_prune_run]
  from frame have "?st' = st_prune\<lparr> redgem := remove_reactions {''r2'', ''r3''} True (redgem st_prune) \<rparr>"
    by blast
  then have "redgem ?st' = remove_reactions {''r2'', ''r3''} True (redgem st_prune)"
    by (metis redgem_state.select_convs(2) redgem_state.surjective redgem_state.update_convs(2))
  then have "remove_reactions {''r2'', ''r3''} True (redgem st_prune)
       = \<lparr> reactions = [hd (reactions ex_net)], metabolites = [''A'', ''B'', ''h''] \<rparr>"
    by simp
  moreover from frame have "gem ?st' = gem st_prune" by blast
  moreover have "gem st_prune = ex_net" by (simp add: st_prune_def init_def)
  ultimately show ?thesis using st_prune_run by simp
qed

subsection \<open>The graph builder\<close>

lemma iter_ok_sorted: "iter_ok sorted_list_of_set"
  by (simp add: iter_ok_def)

lemma dom_add_node [simp]: "dom (add_node u g) = insert u (dom g)"
  by (auto simp: add_node_def split: option.splits)

lemma edge_rxn_tag:
  "edge_rxn g a b = (case edge_tag g a b of None \<Rightarrow> Inl KeyError | Some r \<Rightarrow> Inr r)"
  by (simp add: edge_rxn_def edge_tag_def getitem_def split: option.splits)

lemma edge_tag_add_node [simp]: "edge_tag (add_node u g) a b = edge_tag g a b"
  by (simp add: edge_tag_def add_node_def split: option.splits)

lemma edge_tag_add_edge:
  "edge_tag (add_edge u v r g) a b = (if a = u \<and> b = v then Some r else edge_tag g a b)"
proof -
  let ?g = "add_node v (add_node u g)"
  have "u \<in> dom ?g" by simp
  then obtain s where s: "?g u = Some s" by blast
  have e: "add_edge u v r g = ?g(u \<mapsto> AList.update v r s)"
    using s by (simp add: add_edge_def Let_def)
  have old: "edge_tag ?g a b = edge_tag g a b" by simp
  show ?thesis
  proof (cases "a = u")
    case True
    have "edge_tag (add_edge u v r g) a b = ((map_of s)(v \<mapsto> r)) b"
      unfolding e using True by (simp add: edge_tag_def update_conv')
    moreover have "edge_tag ?g a b = map_of s b"
      using True s by (simp add: edge_tag_def)
    ultimately show ?thesis using old True by simp
  next
    case False
    have "edge_tag (add_edge u v r g) a b = edge_tag ?g a b"
      unfolding e using False by (simp add: edge_tag_def)
    then show ?thesis using old False by simp
  qed
qed

lemma edge_tag_products:
  "edge_tag (fold (\<lambda>v. add_edge u v r) P g) a b
     = (if a = u \<and> b \<in> set P then Some r else edge_tag g a b)"
  by (induction P arbitrary: g) (auto simp: edge_tag_add_edge)

lemma edge_tag_reactants:
  "edge_tag (fold (\<lambda>u. fold (\<lambda>v. add_edge u v r) P) R g) a b
     = (if a \<in> set R \<and> b \<in> set P then Some r else edge_tag g a b)"
  by (induction R arbitrary: g) (auto simp: edge_tag_products)

lemma edge_tag_add_reaction_edges:
  "edge_tag (add_reaction_edges st rxn g) a b
     = (if a \<in> set (reactants (kept_of st rxn)) \<and> b \<in> set (products (kept_of st rxn))
        then Some (rxn_id rxn) else edge_tag g a b)"
  by (simp add: add_reaction_edges_def edge_tag_reactants)

lemma edge_tag_not_induced:
  assumes "\<forall>r \<in> set rs. \<not> (a \<in> set (reactants (kept_of st r)) \<and> b \<in> set (products (kept_of st r)))"
  shows "edge_tag (fold (add_reaction_edges st) rs g) a b = edge_tag g a b"
  using assms by (induction rs arbitrary: g) (auto simp: edge_tag_add_reaction_edges)

lemma edge_tag_last_writer:
  assumes "a \<in> set (reactants (kept_of st r))" and "b \<in> set (products (kept_of st r))"
    and "\<forall>r' \<in> set post. \<not> (a \<in> set (reactants (kept_of st r')) \<and> b \<in> set (products (kept_of st r')))"
  shows "edge_tag (fold (add_reaction_edges st) (pre @ r # post) g) a b = Some (rxn_id r)"
  using assms by (simp add: edge_tag_not_induced edge_tag_add_reaction_edges)

lemma edge_tag_some_writer:
  assumes "r \<in> set rs" and "a \<in> set (reactants (kept_of st r))"
    and "b \<in> set (products (kept_of st r))"
  shows "\<exists>r' \<in> set rs. a \<in> set (reactants (kept_of st r')) \<and> b \<in> set (products (kept_of st r'))
           \<and> edge_tag (fold (add_reaction_edges st) rs g) a b = Some (rxn_id r')"
proof -
  let ?P = "\<lambda>r. a \<in> set (reactants (kept_of st r)) \<and> b \<in> set (products (kept_of st r))"
  have "\<exists>x \<in> set rs. ?P x" using assms by blast
  from split_list_last_prop [OF this] obtain pre r' post
    where s: "rs = pre @ r' # post" "?P r'" "\<forall>z \<in> set post. \<not> ?P z"
    by blast
  have "edge_tag (fold (add_reaction_edges st) rs g) a b = Some (rxn_id r')"
    unfolding s(1) by (rule edge_tag_last_writer) (use s in auto)
  then show ?thesis using s by auto
qed

lemma dom_add_edge [simp]: "dom (add_edge u v r g) = insert u (insert v (dom g))"
  by (auto simp: add_edge_def Let_def)

lemma dom_fold_products: "dom g \<subseteq> dom (fold (\<lambda>v. add_edge u v r) P g)"
proof (induction P arbitrary: g)
  case Nil
  then show ?case by simp
next
  case (Cons v P)
  have "dom g \<subseteq> dom (add_edge u v r g)" by auto
  also have "\<dots> \<subseteq> dom (fold (\<lambda>v. add_edge u v r) P (add_edge u v r g))"
    by (rule Cons.IH)
  finally show ?case by simp
qed

lemma dom_fold_reactants: "dom g \<subseteq> dom (fold (\<lambda>u. fold (\<lambda>v. add_edge u v r) P) R g)"
proof (induction R arbitrary: g)
  case Nil
  then show ?case by simp
next
  case (Cons u R)
  have "dom g \<subseteq> dom (fold (\<lambda>v. add_edge u v r) P g)" by (rule dom_fold_products)
  also have "\<dots> \<subseteq> dom (fold (\<lambda>u. fold (\<lambda>v. add_edge u v r) P) R (fold (\<lambda>v. add_edge u v r) P g))"
    by (rule Cons.IH)
  finally show ?case by simp
qed

lemma dom_add_reaction_edges: "dom g \<subseteq> dom (add_reaction_edges st rxn g)"
  by (simp add: add_reaction_edges_def dom_fold_reactants)

lemma dom_fold_reactions: "dom g \<subseteq> dom (fold (add_reaction_edges st) rs g)"
proof (induction rs arbitrary: g)
  case Nil
  then show ?case by simp
next
  case (Cons x rs)
  have "dom g \<subseteq> dom (add_reaction_edges st x g)" by (rule dom_add_reaction_edges)
  also have "\<dots> \<subseteq> dom (fold (add_reaction_edges st) rs (add_reaction_edges st x g))"
    by (rule Cons.IH)
  finally show ?case by simp
qed

lemma dom_fold_add_node: "dom (fold add_node xs g) = set xs \<union> dom g"
  by (induction xs arbitrary: g) auto

lemma finite_kept_metabolites: "finite (kept_metabolites st)"
  by (simp add: kept_metabolites_def)

text \<open>
  Claim C6. In the graph built by \<open>create_new_stoichiometric_matrix\<close>, for a reaction \<open>r\<close>,
  a retained reactant \<open>a\<close> and a retained product \<open>b\<close> of \<open>r\<close>: the edge (a, b) carries the
  identifier of \<open>r\<close> when no reaction processed after \<open>r\<close> induces the same edge; in any
  case the edge is there and carries the identifier of a reaction that induces it (the
  last one, by the first part); and every retained metabolite is a node.
\<close>

theorem graph_edges_and_nodes:
  assumes "iter_ok iter"
  shows "(reactions (gem st) = pre @ r # post
            \<longrightarrow> a \<in> set (reactants (kept_of st r)) \<longrightarrow> b \<in> set (products (kept_of st r))
            \<longrightarrow> (\<forall>r' \<in> set post. \<not> (a \<in> set (reactants (kept_of st r'))
                                     \<and> b \<in> set (products (kept_of st r'))))
            \<longrightarrow> edge_rxn (digraph (create_new_stoichiometric_matrix iter st)) a b = Inr (rxn_id r))
         \<and> (r \<in> set (reactions (gem st))
            \<longrightarrow> a \<in> set (reactants (kept_of st r)) \<longrightarrow> b \<in> set (products (kept_of st r))
            \<longrightarrow> (\<exists>r' \<in> set (reactions (gem st)).
                    a \<in> set (reactants (kept_of st r')) \<and> b \<in> set (products (kept_of st r'))
                    \<and> edge_rxn (digraph (create_new_stoichiometric_matrix iter st)) a b
                        = Inr (rxn_id r')))
         \<and> (r \<in> set (reactions (gem st)) \<longrightarrow> m \<in> set (map fst (kept_of st r))
            \<longrightarrow> digraph (create_new_stoichiometric_matrix iter st) m \<noteq> None)"
proof (intro conjI impI)
  let ?g1 = "fold add_node (iter (kept_metabolites st)) (digraph st)"
  have g: "digraph (create_new_stoichiometric_matrix iter st)
      = fold (add_reaction_edges st) (reactions (gem st)) ?g1"
    by (simp add: create_new_stoichiometric_matrix_def Let_def)
  {
    assume "reactions (gem st) = pre @ r # post" "a \<in> set (reactants (kept_of st r))"
      "b \<in> set (products (kept_of st r))"
      "\<forall>r' \<in> set post. \<not> (a \<in> set (reactants (kept_of st r'))
                          \<and> b \<in> set (products (kept_of st r')))"
    then show "edge_rxn (digraph (create_new_stoichiometric_matrix iter st)) a b = Inr (rxn_id r)"
      using edge_tag_last_writer [of a st r b post pre ?g1] by (simp add: g edge_rxn_tag)
  }
  {
    assume "r \<in> set (reactions (gem st))" "a \<in> set (reactants (kept_of st r))"
      "b \<in> set (products (kept_of st r))"
    from edge_tag_some_writer [OF this, of ?g1]
    show "\<exists>r' \<in> set (reactions (gem st)).
             a \<in> set (reactants (kept_of st r')) \<and> b \<in> set (products (kept_of st r'))
             \<and> edge_rxn (digraph (create_new_stoichiometric_matrix iter st)) a b = Inr (rxn_id r')"
      by (auto simp: g edge_rxn_tag)
  }
  {
    assume "r \<in> set (reactions (gem st))" "m \<in> set (map fst (kept_of st r))"
    then have "m \<in> kept_metabolites st" by (auto simp: kept_metabolites_def)
    then have "m \<in> set (iter (kept_metabolites st))"
      using assms finite_kept_metabolites by (simp add: iter_ok_def)
    then have "m \<in> dom ?g1" by (simp add: dom_fold_add_node)
    then have "m \<in> dom (fold (add_reaction_edges st) (reactions (gem st)) ?g1)"
      using dom_fold_reactions by blast
    then show "digraph (create_new_stoichiometric_matrix iter st) m \<noteq> None"
      unfolding g by blast
  }
qed

theorem graph_edges_and_nodes_witness:
  "iter_ok sorted_list_of_set
   \<and> edge_rxn (digraph (create_new_stoichiometric_matrix sorted_list_of_set st_dup)) ''A'' ''B''
       = Inr ''r2''
   \<and> digraph (create_new_stoichiometric_matrix sorted_list_of_set st_dup) ''E'' \<noteq> None"
proof -
  let ?r1 = "\<lparr> rxn_id = ''r1'', rxn_subsystem = ''X'',
               rxn_metabolites = [(''A'', - 1), (''B'', 1)] \<rparr>"
  let ?r2 = "\<lparr> rxn_id = ''r2'', rxn_subsystem = ''X'',
               rxn_metabolites = [(''A'', - 1), (''h'', - 1), (''B'', 1)] \<rparr>"
  let ?r3 = "\<lparr> rxn_id = ''r3'', rxn_subsystem = ''Y'', rxn_metabolites = [(''E'', - 1)] \<rparr>"
  have rs: "reactions (gem st_dup) = [?r1] @ ?r2 # [?r3]"
    by (simp add: st_dup_def init_def ex_dup_def)
  have ign: "\<And>m. ignorable st_dup m \<longleftrightarrow> m = ''h''"
    by (simp add: ignorable_def st_dup_def init_def)
  have ab: "''A'' \<in> set (reactants (kept_of st_dup ?r2))" "''B'' \<in> set (products (kept_of st_dup ?r2))"
    by (simp_all add: kept_of_def reactants_def products_def ign)
  have post: "\<forall>r' \<in> set [?r3]. \<not> (''A'' \<in> set (reactants (kept_of st_dup r'))
                                  \<and> ''B'' \<in> set (products (kept_of st_dup r')))"
    by (simp add: kept_of_def reactants_def products_def ign)
  have r3: "?r3 \<in> set (reactions (gem st_dup))" by (simp add: rs)
  have e: "''E'' \<in> set (map fst (kept_of st_dup ?r3))" by (simp add: kept_of_def ign)
  note inst = graph_edges_and_nodes [OF iter_ok_sorted, where st = st_dup]
  have "edge_rxn (digraph (create_new_stoichiometric_matrix sorted_list_of_set st_dup)) ''A'' ''B''
       = Inr (rxn_id ?r2)"
    using inst [where pre = "[?r1]" and r = ?r2 and post = "[?r3]" and a = "''A''" and b = "''B''"]
      rs ab post by blast
  moreover have "digraph (create_new_stoichiometric_matrix sorted_list_of_set st_dup) ''E'' \<noteq> None"
    using inst [where r = ?r3 and m = "''E''"] r3 e by blast
  ultimately show ?thesis using iter_ok_sorted by simp
qed

subsection \<open>The ancestors dictionary of a search\<close>

lemma visit_successor_inv:
  assumes adm: "admits_new allowed"
    and dom0: "dom anc0 \<subseteq> E"
    and cur: "cur \<in> F" and edge: "edge_tag g cur v \<noteq> None"
    and inv: "round_inv g F E anc0 s"
    and run: "visit_successor allowed i E cur v s = Inr s'"
  shows "round_inv g F E anc0 s'"
proof -
  obtain nn an where s: "s = (nn, an)" by (cases s)
  from run s obtain ok where ok: "allowed v i E = Inr ok"
    and s': "s' = (if ok then (insert v nn,
                      (case an v of Some prev \<Rightarrow> an(v \<mapsto> prev @ [cur])
                       | None \<Rightarrow> an(v \<mapsto> [cur])))
                   else (nn, an))"
    by (auto simp: visit_successor_def bind_e_eq_Inr split: if_splits)
  show ?thesis
  proof (cases ok)
    case False
    then show ?thesis using inv s s' by simp
  next
    case True
    then have vE: "v \<notin> E" using adm ok by (simp add: admits_new_def)
    from inv [unfolded s round_inv_def prod.case]
    have i1: "finite nn" "nn \<inter> E = {}" "\<forall>w. w \<notin> nn \<longrightarrow> an w = anc0 w"
      "\<forall>w \<in> nn. \<exists>prev. an w = Some prev \<and> (\<forall>a \<in> set prev. a \<in> F \<and> edge_tag g a w \<noteq> None)"
      by blast+
    let ?an' = "case an v of Some prev \<Rightarrow> an(v \<mapsto> prev @ [cur]) | None \<Rightarrow> an(v \<mapsto> [cur])"
    have s'': "s' = (insert v nn, ?an')" using s' True by simp
    have other: "\<And>w. w \<noteq> v \<Longrightarrow> ?an' w = an w" by (simp split: option.splits)
    have new: "\<exists>prev. ?an' v = Some prev \<and> (\<forall>a \<in> set prev. a \<in> F \<and> edge_tag g a v \<noteq> None)"
    proof (cases "v \<in> nn")
      case True
      with i1(4) obtain prev where "an v = Some prev"
        "\<forall>a \<in> set prev. a \<in> F \<and> edge_tag g a v \<noteq> None" by blast
      then show ?thesis using cur edge by simp
    next
      case False
      then have "an v = anc0 v" using i1(3) by simp
      moreover have "anc0 v = None" using vE dom0 by blast
      ultimately show ?thesis using cur edge by simp
    qed
    have "finite (insert v nn)" using i1(1) by simp
    moreover have "insert v nn \<inter> E = {}" using i1(2) vE by simp
    moreover have "\<forall>w. w \<notin> insert v nn \<longrightarrow> ?an' w = anc0 w" using other i1(3) by simp
    moreover have "\<forall>w \<in> insert v nn. \<exists>prev. ?an' w = Some prev
        \<and> (\<forall>a \<in> set prev. a \<in> F \<and> edge_tag g a w \<noteq> None)"
    proof
      fix w assume "w \<in> insert v nn"
      show "\<exists>prev. ?an' w = Some prev \<and> (\<forall>a \<in> set prev. a \<in> F \<and> edge_tag g a w \<noteq> None)"
      proof (cases "w = v")
        case True
        then show ?thesis using new by simp
      next
        case False
        then have "w \<in> nn" using \<open>w \<in> insert v nn\<close> by simp
        then show ?thesis using i1(4) other [OF False] by simp
      qed
    qed
    ultimately show ?thesis unfolding s'' round_inv_def by simp
  qed
qed

lemma visit_node_inv:
  assumes ok: "iter_ok iter"
    and adm: "admits_new allowed"
    and dom0: "dom anc0 \<subseteq> E"
    and cur: "cur \<in> F"
    and inv: "round_inv g F E anc0 s"
    and run: "visit_node iter g allowed i E cur s = Inr s'"
  shows "round_inv g F E anc0 s'"
proof -
  from run obtain succs where succs: "g cur = Some succs"
    and fold: "foldM_e (visit_successor allowed i E cur) (iter (set (map fst succs))) s = Inr s'"
    by (auto simp: visit_node_def bind_e_eq_Inr getitem_eq_Inr)
  have it: "set (iter (set (map fst succs))) = set (map fst succs)"
    using ok by (simp add: iter_ok_def)
  show ?thesis
  proof (rule foldM_e_invariant [where I = "round_inv g F E anc0", OF fold inv])
    fix v t t'
    assume v: "v \<in> set (iter (set (map fst succs)))" and t: "round_inv g F E anc0 t"
      and step: "visit_successor allowed i E cur v t = Inr t'"
    have "map_of succs v \<noteq> None" using v it by (simp add: map_of_eq_None_iff)
    then have "edge_tag g cur v \<noteq> None" using succs by (simp add: edge_tag_def)
    then show "round_inv g F E anc0 t'"
      using visit_successor_inv [OF adm dom0 cur _ t step] by blast
  qed
qed

lemma foldM_e_counted:
  assumes "foldM_e f xs s = Inr s'" and "I k s"
    and "\<And>x k s s'. x \<in> set xs \<Longrightarrow> I k s \<Longrightarrow> f x s = Inr s' \<Longrightarrow> I (Suc k) s'"
  shows "I (k + length xs) s'"
  using assms
proof (induction xs arbitrary: s k)
  case Nil
  then show ?case by simp
next
  case (Cons x xs)
  from Cons.prems(1) obtain s1 where s1: "f x s = Inr s1" "foldM_e f xs s1 = Inr s'"
    by (auto simp: bind_e_eq_Inr)
  have "I (Suc k) s1" using Cons.prems(2) Cons.prems(3) [of x k s s1] s1(1) by simp
  have "I (Suc k + length xs) s'"
    by (rule Cons.IH [OF s1(2) \<open>I (Suc k) s1\<close>]) (use Cons.prems(3) in \<open>meson list.set_intros(2)\<close>)
  then show ?case by simp
qed

lemma length_py_range [simp]: "length (py_range d) = nat d"
  by (simp add: py_range_def)

lemma bfs_round_inv:
  assumes ok: "iter_ok iter" and adm: "admits_new allowed"
    and inv: "bfs_inv g src rank k s"
    and run: "bfs_round iter g allowed i s = Inr s'"
  shows "\<exists>rank'. bfs_inv g src rank' (Suc k) s'"
proof -
  obtain F E anc where s: "s = (F, E, anc)" by (cases s)
  from inv [unfolded s bfs_inv_def prod.case]
  have i1: "finite F" "F \<subseteq> E" "E = insert src (dom anc)"
    "\<forall>v \<in> E. rank v \<le> k" "\<forall>v \<in> F. rank v = k"
    "\<forall>v prev. anc v = Some prev \<longrightarrow>
        (\<forall>a \<in> set prev. a \<in> E \<and> Suc (rank a) = rank v \<and> edge_tag g a v \<noteq> None)"
    by blast+
  from run s obtain nn an
    where fold: "foldM_e (visit_node iter g allowed i E) (iter F) ({}, anc) = Inr (nn, an)"
      and s': "s' = (nn, E \<union> nn, an)"
    by (auto simp: bfs_round_def bind_e_eq_Inr)
  have dom0: "dom anc \<subseteq> E" using i1(3) by blast
  have itF: "set (iter F) = F" using ok i1(1) by (simp add: iter_ok_def)
  have r0: "round_inv g F E anc ({}, anc)" by (simp add: round_inv_def)
  have "round_inv g F E anc (nn, an)"
  proof (rule foldM_e_invariant [where I = "round_inv g F E anc", OF fold r0])
    fix cur t t'
    assume "cur \<in> set (iter F)" "round_inv g F E anc t" "visit_node iter g allowed i E cur t = Inr t'"
    then show "round_inv g F E anc t'"
      using visit_node_inv [OF ok adm dom0 _ _ _] itF by blast
  qed
  from this [unfolded round_inv_def prod.case]
  have r: "finite nn" "nn \<inter> E = {}" "\<forall>v. v \<notin> nn \<longrightarrow> an v = anc v"
    "\<forall>v \<in> nn. \<exists>prev. an v = Some prev \<and> (\<forall>a \<in> set prev. a \<in> F \<and> edge_tag g a v \<noteq> None)"
    by blast+
  let ?rank = "\<lambda>v. if v \<in> nn then Suc k else rank v"
  have dom_an: "dom an = dom anc \<union> nn"
  proof (rule set_eqI)
    fix v
    show "v \<in> dom an \<longleftrightarrow> v \<in> dom anc \<union> nn"
    proof (cases "v \<in> nn")
      case True
      then show ?thesis using r(4) by auto
    next
      case False
      then show ?thesis using r(3) by (simp add: dom_def)
    qed
  qed
  have a1: "E \<union> nn = insert src (dom an)" using i1(3) dom_an by auto
  have a2: "\<forall>v \<in> E \<union> nn. ?rank v \<le> Suc k" using i1(4) by auto
  have a3: "\<forall>v \<in> nn. ?rank v = Suc k" by simp
  have a4: "\<forall>v prev. an v = Some prev \<longrightarrow>
      (\<forall>a \<in> set prev. a \<in> E \<union> nn \<and> Suc (?rank a) = ?rank v \<and> edge_tag g a v \<noteq> None)"
  proof (intro allI impI ballI)
    fix v prev a
    assume vp: "an v = Some prev" and a: "a \<in> set prev"
    show "a \<in> E \<union> nn \<and> Suc (?rank a) = ?rank v \<and> edge_tag g a v \<noteq> None"
    proof (cases "v \<in> nn")
      case True
      with r(4) vp a have aF: "a \<in> F" and e: "edge_tag g a v \<noteq> None" by auto
      have "a \<in> E" using aF i1(2) by blast
      then have "a \<notin> nn" using r(2) by blast
      moreover have "rank a = k" using aF i1(5) by simp
      ultimately show ?thesis using True \<open>a \<in> E\<close> e by simp
    next
      case False
      then have old: "anc v = Some prev" using r(3) vp by simp
      with i1(6) a have f: "a \<in> E" "Suc (rank a) = rank v" "edge_tag g a v \<noteq> None" by auto
      have "a \<notin> nn" using f(1) r(2) by blast
      then show ?thesis using False f by simp
    qed
  qed
  have "bfs_inv g src ?rank (Suc k) (nn, E \<union> nn, an)"
    unfolding bfs_inv_def prod.case using r(1) a1 a2 a3 a4 by blast
  then show ?thesis using s' by blast
qed

lemma bfs_layered:
  assumes ok: "iter_ok iter" and adm: "admits_new allowed"
    and run: "bfs iter g allowed d src = Inr s"
  shows "\<exists>rank. bfs_inv g src rank (nat d) s"
proof -
  let ?I = "\<lambda>k s. \<exists>rank. bfs_inv g src rank k s"
  have start: "?I 0 ({src}, {src}, Map.empty)"
    by (rule exI [of _ "\<lambda>_. 0"]) (simp add: bfs_inv_def)
  have "?I (0 + length (py_range d)) s"
  proof (rule foldM_e_counted [where I = ?I, OF run [unfolded bfs_def] start])
    fix x k t t'
    assume "?I k t" "bfs_round iter g allowed x t = Inr t'"
    then show "?I (Suc k) t'" using bfs_round_inv [OF ok adm] by blast
  qed
  then show ?thesis by simp
qed

subsection \<open>The path enumerator\<close>

lemma paths_at_source: "{p. ancestor_path anc src src p} = {[src]}"
  by (auto elim: ancestor_path.cases intro: ancestor_path.at_source)

lemma paths_extend:
  assumes "t \<noteq> src" and "anc t = Some prev"
  shows "{p. ancestor_path anc src t p}
           = (\<Union>a \<in> set prev. (\<lambda>p. p @ [t]) ` {p. ancestor_path anc src a p})"
proof (rule set_eqI)
  fix q
  show "q \<in> {p. ancestor_path anc src t p}
      \<longleftrightarrow> q \<in> (\<Union>a \<in> set prev. (\<lambda>p. p @ [t]) ` {p. ancestor_path anc src a p})"
  proof
    assume "q \<in> {p. ancestor_path anc src t p}"
    then have "ancestor_path anc src t q" by simp
    then show "q \<in> (\<Union>a \<in> set prev. (\<lambda>p. p @ [t]) ` {p. ancestor_path anc src a p})"
      using assms by (cases rule: ancestor_path.cases) auto
  next
    assume "q \<in> (\<Union>a \<in> set prev. (\<lambda>p. p @ [t]) ` {p. ancestor_path anc src a p})"
    then obtain a p where "a \<in> set prev" "ancestor_path anc src a p" "q = p @ [t]" by auto
    then show "q \<in> {p. ancestor_path anc src t p}"
      using assms ancestor_path.extend [of t src anc prev a p] by simp
  qed
qed

lemma retrieve_sound:
  fixes rank :: "met_id \<Rightarrow> nat"
  assumes lay: "\<forall>v prev. anc v = Some prev
      \<longrightarrow> (\<forall>a \<in> set prev. (a = src \<or> a \<in> dom anc) \<and> Suc (rank a) = rank v)"
  shows "b \<or> memo_sound anc src pd \<Longrightarrow> t = src \<or> t \<in> dom anc \<Longrightarrow> rank t < fuel
      \<Longrightarrow> \<exists>ps pd'. retrieve_all_paths fuel t src anc b pd = Inr (ps, pd')
             \<and> set ps = {p. ancestor_path anc src t p} \<and> memo_sound anc src pd'"
    and "memo_sound anc src pd \<Longrightarrow> \<forall>a \<in> set prevs. (a = src \<or> a \<in> dom anc) \<and> rank a < fuel
      \<Longrightarrow> \<exists>ps pd'. retrieve_previous fuel prevs t src anc pd acc = Inr (ps, pd')
             \<and> set ps = set acc \<union> (\<Union>a \<in> set prevs. (\<lambda>p. p @ [t]) ` {p. ancestor_path anc src a p})
             \<and> memo_sound anc src pd'"
  using lay
proof (induction fuel t src anc b pd and fuel prevs t src anc pd acc
    rule: retrieve_all_paths_retrieve_previous.induct)
  case (1 dest_node src_node ancestors init_dict pd)
  then show ?case by simp
next
  case (2 fuel dest_node src_node ancestors init_dict pd)
  let ?pd1 = "if init_dict then Map.empty else pd"
  let ?pd2 = "if dest_node = src_node then ?pd1(dest_node \<mapsto> [[src_node]]) else ?pd1"
  have s1: "memo_sound ancestors src_node ?pd1"
    using "2.prems"(1) by (auto simp: memo_sound_def)
  have s2: "memo_sound ancestors src_node ?pd2"
    using s1 paths_at_source [of ancestors src_node] by (auto simp: memo_sound_def)
  show ?case
  proof (cases "?pd2 dest_node")
    case (Some paths)
    have "retrieve_all_paths (Suc fuel) dest_node src_node ancestors init_dict pd = Inr (paths, ?pd2)"
      using Some by (simp add: Let_def)
    moreover have "set paths = {p. ancestor_path ancestors src_node dest_node p}"
      using s2 Some unfolding memo_sound_def by blast
    ultimately show ?thesis using s2 by blast
  next
    case None
    then have ne: "dest_node \<noteq> src_node" by (auto split: if_splits)
    then obtain previous where prev: "ancestors dest_node = Some previous"
      using "2.prems"(2) by blast
    have below: "\<forall>a \<in> set previous. (a = src_node \<or> a \<in> dom ancestors) \<and> rank a < fuel"
      using "2.prems"(3,4) prev by fastforce
    from "2.IH" [OF refl refl None prev s2 below "2.prems"(4)]
    obtain new_paths pd3
      where r: "retrieve_previous fuel previous dest_node src_node ancestors ?pd2 []
                  = Inr (new_paths, pd3)"
        and ps: "set new_paths = set [] \<union> (\<Union>a \<in> set previous. (\<lambda>p. p @ [dest_node])
                    ` {p. ancestor_path ancestors src_node a p})"
        and s3: "memo_sound ancestors src_node pd3"
      by blast
    have eq: "set new_paths = {p. ancestor_path ancestors src_node dest_node p}"
      using ps paths_extend [of dest_node src_node ancestors previous] ne prev by simp
    have "retrieve_all_paths (Suc fuel) dest_node src_node ancestors init_dict pd
        = Inr (new_paths, pd3(dest_node \<mapsto> new_paths))"
      using None prev r by (simp add: Let_def)
    moreover have "memo_sound ancestors src_node (pd3(dest_node \<mapsto> new_paths))"
      using s3 eq by (auto simp: memo_sound_def)
    ultimately show ?thesis using eq by blast
  qed
next
  case (3 fuel dest_node src_node ancestors pd new_paths)
  then show ?case by simp
next
  case (4 fuel previous_node rest dest_node src_node ancestors pd new_paths)
  have first: "previous_node = src_node \<or> previous_node \<in> dom ancestors" "rank previous_node < fuel"
    using "4.prems"(2) by simp_all
  from "4.IH"(1) [OF disjI2 [OF "4.prems"(1)] first "4.prems"(3)]
  obtain paths pd'
    where r1: "retrieve_all_paths fuel previous_node src_node ancestors False pd = Inr (paths, pd')"
      and p1: "set paths = {p. ancestor_path ancestors src_node previous_node p}"
      and s1: "memo_sound ancestors src_node pd'"
    by blast
  have rest: "\<forall>a \<in> set rest. (a = src_node \<or> a \<in> dom ancestors) \<and> rank a < fuel"
    using "4.prems"(2) by simp
  from "4.IH"(2) [OF r1 refl s1 rest "4.prems"(3)]
  obtain ps pd''
    where r2: "retrieve_previous fuel rest dest_node src_node ancestors pd'
                 (new_paths @ map (\<lambda>path. path @ [dest_node]) paths) = Inr (ps, pd'')"
      and p2: "set ps = set (new_paths @ map (\<lambda>path. path @ [dest_node]) paths)
                 \<union> (\<Union>a \<in> set rest. (\<lambda>p. p @ [dest_node]) ` {p. ancestor_path ancestors src_node a p})"
      and s2: "memo_sound ancestors src_node pd''"
    by blast
  have "retrieve_previous fuel (previous_node # rest) dest_node src_node ancestors pd new_paths
      = Inr (ps, pd'')"
    using r1 r2 by simp
  moreover have "set ps = set new_paths
      \<union> (\<Union>a \<in> set (previous_node # rest). (\<lambda>p. p @ [dest_node])
            ` {p. ancestor_path ancestors src_node a p})"
    using p2 p1 by auto
  ultimately show ?case using s2 by blast
qed

lemma is_node_allowed_admits_new:
  "admits_new (\<lambda>node i explored. is_node_allowed st node i explored subsystem_i subsystem_j d)"
  by (auto simp: admits_new_def is_node_allowed_def split: if_splits)

lemma is_node_allowed_extracellular_admits_new:
  "admits_new (\<lambda>node i explored. is_node_allowed_extracellular st node i explored subsystem n)"
  by (auto simp: admits_new_def is_node_allowed_extracellular_def split: if_splits)

lemma bfs_reached:
  assumes "iter_ok iter" and "admits_new allowed"
    and "bfs iter g allowed d src = Inr (frontier, explored, anc)"
  shows "\<exists>rank. finite frontier \<and> frontier \<subseteq> explored \<and> explored = insert src (dom anc)
           \<and> (\<forall>v \<in> explored. rank v \<le> nat d)
           \<and> (\<forall>v prev. anc v = Some prev \<longrightarrow>
                 (\<forall>a \<in> set prev. (a = src \<or> a \<in> dom anc) \<and> Suc (rank a) = rank v
                                  \<and> edge_tag g a v \<noteq> None))"
proof -
  from bfs_layered [OF assms] obtain rank
    where "bfs_inv g src rank (nat d) (frontier, explored, anc)" by blast
  from this [unfolded bfs_inv_def prod.case] show ?thesis
    by (intro exI [of _ rank]) blast
qed

text \<open>
  Claim C1. For the ancestors dictionary of a search (of either kind) from \<open>src\<close> with depth
  \<open>d\<close>, and a node \<open>t\<close> that the search has reached, \<open>retrieve_all_paths\<close> returns, with more
  fuel than \<open>d\<close> and whatever the memo holds before, and the paths it returns are exactly
  the paths from \<open>src\<close> to \<open>t\<close> consistent with the ancestor chain: the single path of
  \<open>src\<close> alone when \<open>t\<close> is \<open>src\<close>, and otherwise the paths to the immediate ancestors of
  \<open>t\<close>, each extended by \<open>t\<close>. For the dictionary B: [A], C: [A], D: [B, C] the paths from A
  to D are (A, B, D) and (A, C, D).
\<close>

theorem retrieve_all_paths_enumerates:
  assumes "iter_ok iter" and "admits_new allowed"
    and "bfs iter g allowed d src = Inr (frontier, explored, anc)"
    and "t \<in> explored" and "nat d < fuel"
  shows "(\<exists>ps pd'. retrieve_all_paths fuel t src anc True pd = Inr (ps, pd')
            \<and> set ps = {p. ancestor_path anc src t p})
         \<and> {p. ancestor_path anc src src p} = {[src]}
         \<and> (t \<noteq> src \<longrightarrow> (\<exists>prev. anc t = Some prev
               \<and> {p. ancestor_path anc src t p}
                   = (\<Union>a \<in> set prev. (\<lambda>p. p @ [t]) ` {p. ancestor_path anc src a p})))
         \<and> map_sum id (\<lambda>r. set (fst r)) (retrieve_all_paths 3 ''D'' ''A'' anc_diamond True pd)
             = Inr {[''A'', ''B'', ''D''], [''A'', ''C'', ''D'']}"
proof (intro conjI)
  from bfs_reached [OF assms(1,2,3)] obtain rank :: "met_id \<Rightarrow> nat"
    where ex: "explored = insert src (dom anc)" and rk: "\<forall>v \<in> explored. rank v \<le> nat d"
      and lay: "\<forall>v prev. anc v = Some prev \<longrightarrow>
                 (\<forall>a \<in> set prev. (a = src \<or> a \<in> dom anc) \<and> Suc (rank a) = rank v
                                  \<and> edge_tag g a v \<noteq> None)"
    by blast
  have lay': "\<forall>v prev. anc v = Some prev
      \<longrightarrow> (\<forall>a \<in> set prev. (a = src \<or> a \<in> dom anc) \<and> Suc (rank a) = rank v)"
    using lay by blast
  have t: "t = src \<or> t \<in> dom anc" using assms(4) ex by blast
  have "rank t < fuel" using rk assms(4,5) by fastforce
  from retrieve_sound(1) [OF lay' disjI1 [OF TrueI] t this]
  show "\<exists>ps pd'. retrieve_all_paths fuel t src anc True pd = Inr (ps, pd')
            \<and> set ps = {p. ancestor_path anc src t p}"
    by blast
  show "{p. ancestor_path anc src src p} = {[src]}" by (rule paths_at_source)
  show "t \<noteq> src \<longrightarrow> (\<exists>prev. anc t = Some prev
               \<and> {p. ancestor_path anc src t p}
                   = (\<Union>a \<in> set prev. (\<lambda>p. p @ [t]) ` {p. ancestor_path anc src a p}))"
    using t paths_extend [of t src anc] by blast
  show "map_sum id (\<lambda>r. set (fst r)) (retrieve_all_paths 3 ''D'' ''A'' anc_diamond True pd)
             = Inr {[''A'', ''B'', ''D''], [''A'', ''C'', ''D'']}"
    by (simp add: anc_diamond_def eval_nat_numeral)
qed

lemma st_diamond_bfs:
  "(case bfs sorted_list_of_set (digraph st_diamond)
           (\<lambda>node i explored. is_node_allowed st_diamond node i explored ''X'' ''Y'' 2) 2 ''A'' of
      Inl e \<Rightarrow> None
    | Inr (frontier, explored, anc) \<Rightarrow> Some (frontier, explored, anc ''B'', anc ''C'', anc ''D''))
   = Some ({''D''}, {''A'', ''B'', ''C'', ''D''}, Some [''A''], Some [''A''], Some [''B'', ''C''])"
  by code_simp

theorem retrieve_all_paths_enumerates_witness:
  "iter_ok sorted_list_of_set
   \<and> admits_new (\<lambda>node i explored. is_node_allowed st_diamond node i explored ''X'' ''Y'' 2)
   \<and> (\<exists>frontier explored anc.
         bfs sorted_list_of_set (digraph st_diamond)
           (\<lambda>node i explored. is_node_allowed st_diamond node i explored ''X'' ''Y'' 2) 2 ''A''
           = Inr (frontier, explored, anc)
         \<and> ''D'' \<in> explored \<and> nat 2 < 3
         \<and> (\<exists>ps pd'. retrieve_all_paths 3 ''D'' ''A'' anc True Map.empty = Inr (ps, pd')
               \<and> set ps = {p. ancestor_path anc ''A'' ''D'' p})
         \<and> {p. ancestor_path anc ''A'' ''D'' p} = {[''A'', ''B'', ''D''], [''A'', ''C'', ''D'']})"
proof -
  let ?allowed = "\<lambda>node i explored. is_node_allowed st_diamond node i explored ''X'' ''Y'' 2"
  have adm: "admits_new ?allowed" by (rule is_node_allowed_admits_new)
  from st_diamond_bfs obtain frontier explored anc
    where run: "bfs sorted_list_of_set (digraph st_diamond) ?allowed 2 ''A''
                  = Inr (frontier, explored, anc)"
      and vals: "explored = {''A'', ''B'', ''C'', ''D''}" "anc ''B'' = Some [''A'']"
        "anc ''C'' = Some [''A'']" "anc ''D'' = Some [''B'', ''C'']"
    by (auto split: sum.splits prod.splits)
  have d: "''D'' \<in> explored" using vals(1) by simp
  have f: "nat 2 < (3::nat)" by simp
  note inst = retrieve_all_paths_enumerates [OF iter_ok_sorted adm run d f, of Map.empty]
  have ev: "map_sum id fst (retrieve_all_paths 3 ''D'' ''A'' anc True Map.empty)
      = Inr [[''A'', ''B'', ''D''], [''A'', ''C'', ''D'']]"
    using vals(2,3,4) by (simp add: eval_nat_numeral)
  from inst [THEN conjunct1] obtain ps pd'
    where r: "retrieve_all_paths 3 ''D'' ''A'' anc True Map.empty = Inr (ps, pd')"
      "set ps = {p. ancestor_path anc ''A'' ''D'' p}"
    by blast
  have ps: "ps = [[''A'', ''B'', ''D''], [''A'', ''C'', ''D'']]" using r(1) ev by simp
  have paths: "{p. ancestor_path anc ''A'' ''D'' p} = {[''A'', ''B'', ''D''], [''A'', ''C'', ''D'']}"
    unfolding r(2) [symmetric] ps by simp
  have inner: "\<exists>ps pd'. retrieve_all_paths 3 ''D'' ''A'' anc True Map.empty = Inr (ps, pd')
               \<and> set ps = {p. ancestor_path anc ''A'' ''D'' p}"
    using r by blast
  have "bfs sorted_list_of_set (digraph st_diamond) ?allowed 2 ''A'' = Inr (frontier, explored, anc)
         \<and> ''D'' \<in> explored \<and> nat 2 < 3
         \<and> (\<exists>ps pd'. retrieve_all_paths 3 ''D'' ''A'' anc True Map.empty = Inr (ps, pd')
               \<and> set ps = {p. ancestor_path anc ''A'' ''D'' p})
         \<and> {p. ancestor_path anc ''A'' ''D'' p} = {[''A'', ''B'', ''D''], [''A'', ''C'', ''D'']}"
    using run d inner paths by simp
  then have "\<exists>frontier explored anc.
         bfs sorted_list_of_set (digraph st_diamond) ?allowed 2 ''A'' = Inr (frontier, explored, anc)
         \<and> ''D'' \<in> explored \<and> nat 2 < 3
         \<and> (\<exists>ps pd'. retrieve_all_paths 3 ''D'' ''A'' anc True Map.empty = Inr (ps, pd')
               \<and> set ps = {p. ancestor_path anc ''A'' ''D'' p})
         \<and> {p. ancestor_path anc ''A'' ''D'' p} = {[''A'', ''B'', ''D''], [''A'', ''C'', ''D'']}"
    by (intro exI)
  then show ?thesis using iter_ok_sorted adm by (intro conjI)
qed

subsection \<open>Reading and writing the per-depth containers\<close>

lemma index_nonneg:
  "0 \<le> k \<Longrightarrow> index l k = (if nat k < length l then Inr (l ! nat k) else Inl IndexError)"
  by (auto simp: index_def Let_def)

lemma setindex_nonneg:
  "0 \<le> k \<Longrightarrow> setindex l k v = (if nat k < length l then Inr (l[nat k := v]) else Inl IndexError)"
  by (auto simp: setindex_def Let_def)

lemma index_update:
  assumes "setindex l k v = Inr l'" and "0 \<le> k" and "0 \<le> k'"
  shows "index l' k' = (if k' = k then Inr v else index l k')"
proof -
  from assms(1,2) have l': "l' = l[nat k := v]" and k: "nat k < length l"
    by (auto simp: setindex_nonneg split: if_splits)
  show ?thesis
  proof (cases "k' = k")
    case True
    then show ?thesis using l' k assms(2) by (simp add: index_nonneg)
  next
    case False
    then have "nat k' \<noteq> nat k" using assms(2,3) by simp
    then show ?thesis using l' False assms(3) by (simp add: index_nonneg)
  qed
qed

lemma get2_update:
  assumes "set2 m i k v = Inr m'" and "0 \<le> k" and "0 \<le> k'"
  shows "get2 m' i' k' = (if i' = i \<and> k' = k then Inr v else get2 m i' k')"
proof -
  from assms(1) obtain l l' where l: "m i = Some l" "setindex l k v = Inr l'" "m' = m(i \<mapsto> l')"
    by (auto simp: set2_def bind_e_eq_Inr getitem_eq_Inr)
  show ?thesis
  proof (cases "i' = i")
    case True
    have "get2 m' i' k' = index l' k'" using True l(3) by (simp add: get2_def)
    moreover have "get2 m i' k' = index l k'" using True l(1) by (simp add: get2_def)
    ultimately show ?thesis using index_update [OF l(2) assms(2,3)] True by simp
  next
    case False
    then show ?thesis using l(3) by (simp add: get2_def getitem_def)
  qed
qed

lemma get3_update:
  assumes "set3 m i j k v = Inr m'" and "0 \<le> k" and "0 \<le> k'"
  shows "get3 m' i' j' k' = (if i' = i \<and> j' = j \<and> k' = k then Inr v else get3 m i' j' k')"
proof -
  from assms(1) obtain mi mi' where mi: "m i = Some mi" "set2 mi j k v = Inr mi'" "m' = m(i \<mapsto> mi')"
    by (auto simp: set3_def bind_e_eq_Inr getitem_eq_Inr)
  show ?thesis
  proof (cases "i' = i")
    case True
    have "get3 m' i' j' k' = get2 mi' j' k'" using True mi(3) by (simp add: get3_def)
    moreover have "get3 m i' j' k' = get2 mi j' k'" using True mi(1) by (simp add: get3_def)
    ultimately show ?thesis using get2_update [OF mi(2) assms(2,3), of j'] True by simp
  next
    case False
    then show ?thesis using mi(3) by (simp add: get3_def getitem_def)
  qed
qed

lemma slot2_update:
  assumes "set2 m i k v = Inr m'" and "0 \<le> k" and "0 \<le> k'"
  shows "slot2 m' i' k' = (if i' = i \<and> k' = k then v else slot2 m i' k')"
  using get2_update [OF assms] by (simp add: slot2_def)

lemma slot3_update:
  assumes "set3 m i j k v = Inr m'" and "0 \<le> k" and "0 \<le> k'"
  shows "slot3 m' i' j' k' = (if i' = i \<and> j' = j \<and> k' = k then v else slot3 m i' j' k')"
  using get3_update [OF assms] by (simp add: slot3_def)

lemma slot2_add:
  assumes "add2 m i k x = Inr m'" and "0 \<le> k" and "0 \<le> k'"
  shows "slot2 m' i' k' = (if i' = i \<and> k' = k then insert x (slot2 m i k) else slot2 m i' k')"
proof -
  from assms(1) obtain s where s: "get2 m i k = Inr s" "set2 m i k (insert x s) = Inr m'"
    by (auto simp: add2_def bind_e_eq_Inr)
  show ?thesis using slot2_update [OF s(2) assms(2,3)] s(1) by (simp add: slot2_def)
qed

lemma slot3_add:
  assumes "add3 m i j k x = Inr m'" and "0 \<le> k" and "0 \<le> k'"
  shows "slot3 m' i' j' k'
           = (if i' = i \<and> j' = j \<and> k' = k then insert x (slot3 m i j k) else slot3 m i' j' k')"
proof -
  from assms(1) obtain s where s: "get3 m i j k = Inr s" "set3 m i j k (insert x s) = Inr m'"
    by (auto simp: add3_def bind_e_eq_Inr)
  show ?thesis using slot3_update [OF s(2) assms(2,3)] s(1) by (simp add: slot3_def)
qed

lemma paths_of_depth_slot3: "paths_of_depth st i j k = slot3 (intermediate_paths st) i j k"
  by (simp add: paths_of_depth_def slot3_def)

subsection \<open>The effect of a subsystem search\<close>

lemma sub_frame_refl: "sub_frame st st"
  unfolding sub_frame_def
  by (intro exI [of _ "path_dict st"] exI [of _ "intermediate_paths st"]
      exI [of _ "intermediate_reactions_id st"] exI [of _ "intermediate_metabolites_id st"]) simp

lemma sub_frame_trans: "sub_frame st st1 \<Longrightarrow> sub_frame st1 st2 \<Longrightarrow> sub_frame st st2"
  unfolding sub_frame_def by (elim exE) (simp, blast)

lemma sub_frame_fields:
  assumes "sub_frame st st'"
  shows "digraph st' = digraph st" "subsystem_metabolites_id st' = subsystem_metabolites_id st"
    "subsystem_reactions_id st' = subsystem_reactions_id st" "gem st' = gem st"
    "redgem st' = redgem st" "subsystem_names st' = subsystem_names st"
    "depth_d st' = depth_d st" "depth_n st' = depth_n st"
    "extracellular_system st' = extracellular_system st"
    "intermediate_extracellular_paths st' = intermediate_extracellular_paths st"
    "intermediate_extracellular_reactions_id st' = intermediate_extracellular_reactions_id st"
    "intermediate_extracellular_metabolites_id st' = intermediate_extracellular_metabolites_id st"
    "min_distance_sub_to_sub st' = min_distance_sub_to_sub st"
    "subsystem_reactions st' = subsystem_reactions st"
  using assms unfolding sub_frame_def by auto

lemma sub_step_refl: "sub_step si sj d st st"
  by (simp add: sub_step_def sub_frame_refl)

lemma sub_step_trans:
  assumes "sub_step si sj d st st1" and "sub_step si sj d st1 st2"
  shows "sub_step si sj d st st2"
proof -
  have g: "digraph st1 = digraph st" using assms(1) by (simp add: sub_step_def sub_frame_fields)
  have "sub_frame st st2" using assms sub_frame_trans by (auto simp: sub_step_def)
  moreover have "\<forall>i j k. 0 \<le> k \<longrightarrow>
            slot3 (intermediate_reactions_id st2) i j k
              \<subseteq> slot3 (intermediate_reactions_id st) i j k \<union> graph_tags (digraph st)"
  proof (intro allI impI)
    fix i j and k :: int assume k: "0 \<le> k"
    have "slot3 (intermediate_reactions_id st2) i j k
        \<subseteq> slot3 (intermediate_reactions_id st1) i j k \<union> graph_tags (digraph st1)"
      using assms(2) k by (simp add: sub_step_def)
    moreover have "slot3 (intermediate_reactions_id st1) i j k
        \<subseteq> slot3 (intermediate_reactions_id st) i j k \<union> graph_tags (digraph st)"
      using assms(1) k by (simp add: sub_step_def)
    ultimately show "slot3 (intermediate_reactions_id st2) i j k
        \<subseteq> slot3 (intermediate_reactions_id st) i j k \<union> graph_tags (digraph st)"
      using g by auto
  qed
  moreover have "\<forall>i j k. 0 \<le> k \<longrightarrow> \<not> (i = si \<and> j = sj \<and> k = d) \<longrightarrow>
            slot3 (intermediate_paths st2) i j k = slot3 (intermediate_paths st) i j k"
    using assms by (simp add: sub_step_def)
  ultimately show ?thesis by (simp add: sub_step_def)
qed

lemma foldM_e_rel:
  assumes "foldM_e f xs s = Inr s'"
    and refl: "\<And>s. R s s"
    and trans: "\<And>s s1 s2. R s s1 \<Longrightarrow> R s1 s2 \<Longrightarrow> R s s2"
    and step: "\<And>x s s'. x \<in> set xs \<Longrightarrow> f x s = Inr s' \<Longrightarrow> R s s'"
  shows "R s s'"
proof (rule foldM_e_invariant [where I = "R s", OF assms(1)])
  show "R s s" by (rule refl)
next
  fix x t t' assume "x \<in> set xs" "R s t" "f x t = Inr t'"
  then show "R s t'" using trans step by blast
qed

lemma edge_rxn_in_tags: "edge_rxn g u v = Inr r \<Longrightarrow> r \<in> graph_tags g"
  by (auto simp: edge_rxn_tag graph_tags_def split: option.splits)

lemma record_edge_step:
  assumes "record_edge path si sj d idx st = Inr st'" and "0 \<le> d"
  shows "sub_step si sj d st st' \<and> intermediate_paths st' = intermediate_paths st"
proof -
  from assms(1) obtain u v r ir
    where r: "edge_rxn (digraph st) u v = Inr r"
      and ir: "add3 (intermediate_reactions_id st) si sj d r = Inr ir"
      and rest: "(if 0 < idx
          then bind_e (index path idx) (\<lambda>w.
               bind_e (add3 (intermediate_metabolites_id (st\<lparr> intermediate_reactions_id := ir \<rparr>))
                         si sj d w) (\<lambda>im.
                 Inr (st\<lparr> intermediate_reactions_id := ir, intermediate_metabolites_id := im \<rparr>)))
          else Inr (st\<lparr> intermediate_reactions_id := ir \<rparr>)) = Inr st'"
    by (auto simp: record_edge_def bind_e_eq_Inr Let_def)
  from rest have "\<exists>im. st' = st\<lparr> intermediate_reactions_id := ir, intermediate_metabolites_id := im \<rparr>"
  proof (cases "0 < idx")
    case True
    with rest show ?thesis by (auto simp: bind_e_eq_Inr)
  next
    case False
    with rest have "st' = st\<lparr> intermediate_reactions_id := ir \<rparr>" by simp
    then have "st' = st\<lparr> intermediate_reactions_id := ir,
                         intermediate_metabolites_id := intermediate_metabolites_id st \<rparr>"
      by simp
    then show ?thesis by blast
  qed
  then obtain im
    where st': "st' = st\<lparr> intermediate_reactions_id := ir, intermediate_metabolites_id := im \<rparr>"
    by blast
  have frame: "sub_frame st st'"
    unfolding sub_frame_def st'
    by (intro exI [of _ "path_dict st"] exI [of _ "intermediate_paths st"] exI [of _ ir]
        exI [of _ im]) simp
  have tags: "\<forall>i j k. 0 \<le> k \<longrightarrow>
      slot3 (intermediate_reactions_id st') i j k
        \<subseteq> slot3 (intermediate_reactions_id st) i j k \<union> graph_tags (digraph st)"
    using slot3_add [OF ir assms(2)] edge_rxn_in_tags [OF r] by (auto simp: st')
  show ?thesis using frame tags by (simp add: sub_step_def st')
qed

lemma retrieve_intermediate_step:
  assumes "retrieve_intermediate_metabolites_and_reactions paths si sj d st = Inr st'"
    and "0 \<le> d"
  shows "sub_step si sj d st st' \<and> intermediate_paths st' = intermediate_paths st"
proof -
  let ?R = "\<lambda>s s'. sub_step si sj d s s' \<and> intermediate_paths s' = intermediate_paths s"
  have refl: "\<And>s. ?R s s" by (simp add: sub_step_refl)
  have trans: "\<And>s s1 s2. ?R s s1 \<Longrightarrow> ?R s1 s2 \<Longrightarrow> ?R s s2"
    using sub_step_trans by auto
  have inner: "?R s s'" if "foldM_e (record_edge path si sj d) xs s = Inr s'" for path xs s s'
    by (rule foldM_e_rel [where R = ?R, OF that refl trans])
       (use record_edge_step [OF _ assms(2)] in blast)+
  show ?thesis
    by (rule foldM_e_rel [where R = ?R,
          OF assms(1) [unfolded retrieve_intermediate_metabolites_and_reactions_def] refl trans])
       (use inner in blast)+
qed

lemma foldM_e_accum:
  assumes "foldM_e f xs s = Inr s'" and "I s"
    and "\<And>x t t'. x \<in> set xs \<Longrightarrow> I t \<Longrightarrow> f x t = Inr t' \<Longrightarrow> I t' \<and> g t' = g t \<union> h x"
  shows "I s' \<and> g s' = g s \<union> (\<Union>x \<in> set xs. h x)"
  using assms
proof (induction xs arbitrary: s)
  case Nil
  then show ?case by simp
next
  case (Cons x xs)
  from Cons.prems(1) obtain s1 where s1: "f x s = Inr s1" "foldM_e f xs s1 = Inr s'"
    by (auto simp: bind_e_eq_Inr)
  have h1: "I s1 \<and> g s1 = g s \<union> h x"
    using Cons.prems(2) Cons.prems(3) [of x s s1] s1(1) by simp
  have "I s' \<and> g s' = g s1 \<union> (\<Union>x \<in> set xs. h x)"
    by (rule Cons.IH [OF s1(2)]) (use h1 Cons.prems(3) in \<open>simp, meson list.set_intros(2)\<close>)
  then show ?case using h1 by auto
qed

lemma record_destination_step:
  assumes "record_destination fuel si sj d m anc node st = Inr st'" and "0 \<le> d"
  shows "sub_step si sj d st st'
         \<and> (\<exists>paths pd. retrieve_all_paths fuel node m anc True (path_dict st) = Inr (paths, pd)
               \<and> slot3 (intermediate_paths st') si sj d
                   = slot3 (intermediate_paths st) si sj d \<union> set paths)"
proof -
  from assms(1) obtain paths pd old ip
    where r: "retrieve_all_paths fuel node m anc True (path_dict st) = Inr (paths, pd)"
      and old: "get3 (intermediate_paths st) si sj d = Inr old"
      and ip: "set3 (intermediate_paths st) si sj d (old \<union> set paths) = Inr ip"
      and rest: "retrieve_intermediate_metabolites_and_reactions paths si sj d
                   (st\<lparr> path_dict := pd, intermediate_paths := ip \<rparr>) = Inr st'"
    by (auto simp: record_destination_def bind_e_eq_Inr Let_def)
  let ?st2 = "st\<lparr> path_dict := pd, intermediate_paths := ip \<rparr>"
  have frame2: "sub_frame st ?st2"
    unfolding sub_frame_def
    by (intro exI [of _ pd] exI [of _ ip] exI [of _ "intermediate_reactions_id st"]
        exI [of _ "intermediate_metabolites_id st"]) simp
  have upd: "\<And>i j k. 0 \<le> k \<Longrightarrow> slot3 ip i j k
      = (if i = si \<and> j = sj \<and> k = d then old \<union> set paths else slot3 (intermediate_paths st) i j k)"
    using slot3_update [OF ip assms(2)] by simp
  have step2: "sub_step si sj d st ?st2"
    using frame2 upd by (simp add: sub_step_def)
  from retrieve_intermediate_step [OF rest assms(2)]
  have step3: "sub_step si sj d ?st2 st'" and same: "intermediate_paths st' = ip" by simp_all
  have "slot3 (intermediate_paths st') si sj d = slot3 (intermediate_paths st) si sj d \<union> set paths"
    using upd [OF assms(2), of si sj] same old by (simp add: slot3_def)
  then show ?thesis using sub_step_trans [OF step2 step3] r by blast
qed

lemma search_from_step:
  assumes "search_from iter fuel si sj d m st = Inr st'" and "0 \<le> d"
  shows "sub_step si sj d st st'"
proof -
  from assms(1) obtain anc xs
    where fold: "foldM_e (record_destination fuel si sj d m anc) xs st = Inr st'"
    by (auto simp: search_from_def bind_e_eq_Inr)
  show ?thesis
    by (rule foldM_e_rel [where R = "sub_step si sj d", OF fold sub_step_refl])
       (use sub_step_trans record_destination_step [OF _ assms(2)] in blast)+
qed

lemma breadth_search_step:
  assumes "breadth_search_subsystems_paths_length_d iter fuel si sj d st = Inr st'" and "0 \<le> d"
  shows "sub_step si sj d st st'"
proof -
  from assms(1) obtain xs
    where fold: "foldM_e (search_from iter fuel si sj d) xs st = Inr st'"
    by (auto simp: breadth_search_subsystems_paths_length_d_def bind_e_eq_Inr)
  show ?thesis
    by (rule foldM_e_rel [where R = "sub_step si sj d", OF fold sub_step_refl])
       (use sub_step_trans search_from_step [OF _ assms(2)] in blast)+
qed

subsection \<open>Depth 0\<close>

lemma bfs_depth_0: "bfs iter g allowed 0 m = Inr ({m}, {m}, Map.empty)"
  by (simp add: bfs_def py_range_def)

lemma handle_depth_0_at_0:
  "subsystem_metabolites_id st sj = Some Mj
     \<Longrightarrow> handle_depth_0 st sj 0 m F = Inr (if m \<in> Mj then F else {})"
  by (simp add: handle_depth_0_def)

lemma retrieve_source:
  "retrieve_all_paths fuel m m anc True pd = Inr (paths, pd') \<Longrightarrow> paths = [[m]]"
  by (cases fuel) (auto simp: Let_def)

lemma search_from_depth_0:
  assumes run: "search_from iter fuel si sj 0 m st = Inr st'" and ok: "iter_ok iter"
    and mj: "subsystem_metabolites_id st sj = Some Mj"
  shows "sub_frame st st'
         \<and> slot3 (intermediate_paths st') si sj 0
             = slot3 (intermediate_paths st) si sj 0 \<union> (if m \<in> Mj then {[m]} else {})"
proof -
  let ?F = "if m \<in> Mj then {m} else {}"
  from run have fold: "foldM_e (record_destination fuel si sj 0 m Map.empty) (iter ?F) st = Inr st'"
    by (simp add: search_from_def bfs_depth_0 handle_depth_0_at_0 [OF mj])
  have it: "set (iter ?F) = ?F" using ok by (simp add: iter_ok_def)
  let ?g = "\<lambda>s. slot3 (intermediate_paths s) si sj 0"
  have "sub_frame st st' \<and> ?g st' = ?g st \<union> (\<Union>x \<in> set (iter ?F). {[m]})"
  proof (rule foldM_e_accum [where I = "sub_frame st" and g = ?g, OF fold sub_frame_refl])
    fix x t t'
    assume x: "x \<in> set (iter ?F)" and t: "sub_frame st t"
      and step: "record_destination fuel si sj 0 m Map.empty x t = Inr t'"
    have xm: "x = m" using x it by (auto split: if_splits)
    from record_destination_step [OF step] obtain paths pd
      where s: "sub_step si sj 0 t t'"
        and r: "retrieve_all_paths fuel x m Map.empty True (path_dict t) = Inr (paths, pd)"
        and g: "?g t' = ?g t \<union> set paths"
      by auto
    have "paths = [[m]]" using r xm retrieve_source by blast
    then show "sub_frame st t' \<and> ?g t' = ?g t \<union> {[m]}"
      using s g t sub_frame_trans by (auto simp: sub_step_def)
  qed
  then show ?thesis using it by (auto split: if_splits)
qed

lemma breadth_search_depth_0:
  assumes run: "breadth_search_subsystems_paths_length_d iter fuel si sj 0 st = Inr st'"
    and ok: "iter_ok iter"
    and mi: "subsystem_metabolites_id st si = Some Mi" and fin: "finite Mi"
    and mj: "subsystem_metabolites_id st sj = Some Mj"
  shows "slot3 (intermediate_paths st') si sj 0
           = slot3 (intermediate_paths st) si sj 0 \<union> (\<lambda>m. [m]) ` (Mi \<inter> Mj)"
proof -
  from run mi have fold: "foldM_e (search_from iter fuel si sj 0) (iter Mi) st = Inr st'"
    by (simp add: breadth_search_subsystems_paths_length_d_def)
  have it: "set (iter Mi) = Mi" using ok fin by (simp add: iter_ok_def)
  let ?g = "\<lambda>s. slot3 (intermediate_paths s) si sj 0"
  have "sub_frame st st'
      \<and> ?g st' = ?g st \<union> (\<Union>m \<in> set (iter Mi). if m \<in> Mj then {[m]} else {})"
  proof (rule foldM_e_accum [where I = "sub_frame st" and g = ?g, OF fold sub_frame_refl])
    fix m t t'
    assume "m \<in> set (iter Mi)" and t: "sub_frame st t"
      and step: "search_from iter fuel si sj 0 m t = Inr t'"
    have "subsystem_metabolites_id t sj = Some Mj" using mj sub_frame_fields(2) [OF t] by simp
    from search_from_depth_0 [OF step ok this]
    show "sub_frame st t' \<and> ?g t' = ?g t \<union> (if m \<in> Mj then {[m]} else {})"
      using t sub_frame_trans by blast
  qed
  then show ?thesis unfolding it by (auto split: if_splits)
qed

subsection \<open>The extraction of the subsystems\<close>

lemma extracted_nil: "extracted st [] st"
  unfolding extracted_def
  by (intro exI [of _ "subsystem_reactions st"] exI [of _ "subsystem_reactions_id st"]
      exI [of _ "subsystem_metabolites_id st"]) simp

lemma ignorable_frame:
  "cofactor_pairs st' = cofactor_pairs st \<Longrightarrow> small_metabolites st' = small_metabolites st
     \<Longrightarrow> inorganics st' = inorganics st \<Longrightarrow> ignorable st' = ignorable st"
  by (simp add: ignorable_def fun_eq_iff)

lemma extract_one:
  assumes "extracted st names s"
    and "extract_subsystem_metabolites name (extract_subsystem_reactions name s) = Inr s'"
  shows "extracted st (names @ [name]) s'"
proof -
  from assms(1) obtain sr sri smi
    where s: "s = st\<lparr> subsystem_reactions := sr, subsystem_reactions_id := sri,
                      subsystem_metabolites_id := smi \<rparr>"
      and sri: "\<forall>n. sri n = (if n \<in> set names then Some (rxn_id ` subsystem_rxns_of st n)
                              else subsystem_reactions_id st n)"
      and smi: "\<forall>n. smi n = (if n \<in> set names then Some (subsystem_mets_of st n)
                              else subsystem_metabolites_id st n)"
    unfolding extracted_def by blast
  have gem: "gem s = gem st" and ign: "ignorable s = ignorable st"
    using s by (simp_all add: ignorable_def fun_eq_iff)
  let ?sel = "filter (\<lambda>rxn. rxn_subsystem rxn = name) (reactions (gem st))"
  let ?s1 = "extract_subsystem_reactions name s"
  have s1: "?s1 = st\<lparr> subsystem_reactions := sr(name \<mapsto> set ?sel),
                       subsystem_reactions_id := sri(name \<mapsto> set (map rxn_id ?sel)),
                       subsystem_metabolites_id := smi \<rparr>"
    using s by (simp add: extract_subsystem_reactions_def Let_def)
  have sel: "set ?sel = subsystem_rxns_of st name" by (auto simp: subsystem_rxns_of_def)
  have ign1: "ignorable ?s1 = ignorable st" unfolding s1 by (simp add: ignorable_def fun_eq_iff)
  have s': "s' = st\<lparr> subsystem_reactions := sr(name \<mapsto> set ?sel),
                     subsystem_reactions_id := sri(name \<mapsto> set (map rxn_id ?sel)),
                     subsystem_metabolites_id := smi(name \<mapsto> subsystem_mets_of st name) \<rparr>"
    using assms(2) ign1 unfolding s1
    by (auto simp: extract_subsystem_metabolites_def Let_def subsystem_mets_of_def
        subsystem_rxns_of_def)
  show ?thesis
    unfolding extracted_def
  proof (intro exI conjI allI)
    show "s' = st\<lparr> subsystem_reactions := sr(name \<mapsto> set ?sel),
                     subsystem_reactions_id := sri(name \<mapsto> set (map rxn_id ?sel)),
                     subsystem_metabolites_id := smi(name \<mapsto> subsystem_mets_of st name) \<rparr>"
      by (rule s')
    fix n
    show "(sri(name \<mapsto> set (map rxn_id ?sel))) n
        = (if n \<in> set (names @ [name]) then Some (rxn_id ` subsystem_rxns_of st n)
           else subsystem_reactions_id st n)"
      using sri sel by (auto simp: subsystem_rxns_of_def)
    show "(smi(name \<mapsto> subsystem_mets_of st name)) n
        = (if n \<in> set (names @ [name]) then Some (subsystem_mets_of st n)
           else subsystem_metabolites_id st n)"
      using smi by simp
  qed
qed

lemma extract_all:
  assumes "foldM_e (\<lambda>subsystem s. extract_subsystem_metabolites subsystem
                       (extract_subsystem_reactions subsystem s)) names s = Inr s'"
    and "extracted st done s"
  shows "extracted st (done @ names) s'"
  using assms
proof (induction names arbitrary: s "done")
  case Nil
  then show ?case by simp
next
  case (Cons name names)
  from Cons.prems(1) obtain s1
    where s1: "extract_subsystem_metabolites name (extract_subsystem_reactions name s) = Inr s1"
      and rest: "foldM_e (\<lambda>subsystem s. extract_subsystem_metabolites subsystem
                       (extract_subsystem_reactions subsystem s)) names s1 = Inr s'"
    by (auto simp: bind_e_eq_Inr)
  have "extracted st (done @ [name]) s1" by (rule extract_one [OF Cons.prems(2) s1])
  from Cons.IH [OF rest this] show ?case by simp
qed

lemma finite_subsystem_mets_of: "finite (subsystem_mets_of st name)"
  by (simp add: subsystem_mets_of_def subsystem_rxns_of_def)

lemma extracted_fields:
  assumes "extracted st names st'"
  shows "digraph st' = digraph st" "gem st' = gem st" "redgem st' = redgem st"
    "subsystem_names st' = subsystem_names st" "depth_d st' = depth_d st"
    "depth_n st' = depth_n st" "extracellular_system st' = extracellular_system st"
    "intermediate_paths st' = intermediate_paths st"
    "intermediate_reactions_id st' = intermediate_reactions_id st"
    "intermediate_extracellular_paths st' = intermediate_extracellular_paths st"
    "intermediate_extracellular_reactions_id st' = intermediate_extracellular_reactions_id st"
    "\<And>name. name \<in> set names \<Longrightarrow> subsystem_metabolites_id st' name = Some (subsystem_mets_of st name)"
    "\<And>name. name \<in> set names
       \<Longrightarrow> subsystem_reactions_id st' name = Some (rxn_id ` subsystem_rxns_of st name)"
  using assms unfolding extracted_def by auto

subsection \<open>The depth-0 path-result sets after the subsystem searches\<close>

lemma foldM_e_hit:
  assumes "foldM_e f xs s = Inr s'" and "I s"
    and "\<And>x t t'. x \<in> set xs \<Longrightarrow> I t \<Longrightarrow> f x t = Inr t'
           \<Longrightarrow> I t' \<and> (Q t \<longrightarrow> Q t') \<and> (hit x \<longrightarrow> Q t')"
  shows "I s' \<and> (Q s \<longrightarrow> Q s') \<and> ((\<exists>x \<in> set xs. hit x) \<longrightarrow> Q s')"
  using assms
proof (induction xs arbitrary: s)
  case Nil
  then show ?case by simp
next
  case (Cons x xs)
  from Cons.prems(1) obtain s1 where s1: "f x s = Inr s1" "foldM_e f xs s1 = Inr s'"
    by (auto simp: bind_e_eq_Inr)
  have h1: "I s1 \<and> (Q s \<longrightarrow> Q s1) \<and> (hit x \<longrightarrow> Q s1)"
    using Cons.prems(2) Cons.prems(3) [of x s s1] s1(1) by simp
  have h2: "I s' \<and> (Q s1 \<longrightarrow> Q s') \<and> ((\<exists>x \<in> set xs. hit x) \<longrightarrow> Q s')"
  proof (rule Cons.IH [OF s1(2)])
    show "I s1" using h1 by simp
  next
    fix y t t' assume "y \<in> set xs" "I t" "f y t = Inr t'"
    then show "I t' \<and> (Q t \<longrightarrow> Q t') \<and> (hit y \<longrightarrow> Q t')"
      using Cons.prems(3) [of y t t'] by simp
  qed
  show ?case using h1 h2 by auto
qed

lemma py_range_nonneg: "k \<in> set (py_range n) \<Longrightarrow> 0 \<le> k"
  by (simp add: py_range_def)

lemma zero_in_py_range: "0 \<le> d \<Longrightarrow> 0 \<in> set (py_range (d + 1))"
  by (simp add: py_range_def)

lemma depth_0_search_step:
  assumes ok: "iter_ok iter"
    and mi: "subsystem_metabolites_id st1 i = Some Mi" and fin: "finite Mi"
    and mj: "subsystem_metabolites_id st1 j = Some Mj"
    and inv: "sub_frame st1 t \<and> slot3 (intermediate_paths t) i j 0 \<subseteq> (\<lambda>m. [m]) ` (Mi \<inter> Mj)"
    and run: "breadth_search_subsystems_paths_length_d iter fuel si sj k t = Inr t'"
    and k: "0 \<le> k"
  shows "(sub_frame st1 t' \<and> slot3 (intermediate_paths t') i j 0 \<subseteq> (\<lambda>m. [m]) ` (Mi \<inter> Mj))
         \<and> (slot3 (intermediate_paths t) i j 0 = (\<lambda>m. [m]) ` (Mi \<inter> Mj)
              \<longrightarrow> slot3 (intermediate_paths t') i j 0 = (\<lambda>m. [m]) ` (Mi \<inter> Mj))
         \<and> (si = i \<and> sj = j \<and> k = 0
              \<longrightarrow> slot3 (intermediate_paths t') i j 0 = (\<lambda>m. [m]) ` (Mi \<inter> Mj))"
proof -
  from breadth_search_step [OF run k] have step: "sub_step si sj k t t'" .
  then have frame: "sub_frame st1 t'" using inv sub_frame_trans by (auto simp: sub_step_def)
  show ?thesis
  proof (cases "si = i \<and> sj = j \<and> k = 0")
    case True
    have smi: "subsystem_metabolites_id t = subsystem_metabolites_id st1"
      using inv sub_frame_fields(2) by blast
    have "slot3 (intermediate_paths t') i j 0
        = slot3 (intermediate_paths t) i j 0 \<union> (\<lambda>m. [m]) ` (Mi \<inter> Mj)"
      using breadth_search_depth_0 [OF _ ok _ fin, of fuel i j t t' Mj] run True mi mj smi
      by simp
    then have "slot3 (intermediate_paths t') i j 0 = (\<lambda>m. [m]) ` (Mi \<inter> Mj)"
      using inv by blast
    then show ?thesis using frame by simp
  next
    case False
    then have "slot3 (intermediate_paths t') i j 0 = slot3 (intermediate_paths t) i j 0"
      using step by (simp add: sub_step_def)
    then show ?thesis using frame inv False by auto
  qed
qed

lemma depth_0_all_searches:
  assumes ok: "iter_ok iter"
    and mi: "subsystem_metabolites_id st1 i = Some Mi" and fin: "finite Mi"
    and mj: "subsystem_metabolites_id st1 j = Some Mj"
    and empty: "slot3 (intermediate_paths st1) i j 0 = {}"
    and d: "0 \<le> d" and i: "i \<in> set names" and j: "j \<in> set names"
    and run: "foldM_e (\<lambda>subsystem_i.
                  foldM_e (\<lambda>subsystem_j.
                             foldM_e (breadth_search_subsystems_paths_length_d iter fuel
                                        subsystem_i subsystem_j)
                                     (py_range (d + 1)))
                          names)
               names st1 = Inr st'"
  shows "sub_frame st1 st' \<and> slot3 (intermediate_paths st') i j 0 = (\<lambda>m. [m]) ` (Mi \<inter> Mj)"
proof -
  let ?D = "(\<lambda>m. [m]) ` (Mi \<inter> Mj)"
  let ?I = "\<lambda>t. sub_frame st1 t \<and> slot3 (intermediate_paths t) i j 0 \<subseteq> ?D"
  let ?Q = "\<lambda>t. slot3 (intermediate_paths t) i j 0 = ?D"
  let ?f3 = "\<lambda>si sj. breadth_search_subsystems_paths_length_d iter fuel si sj"
  let ?f2 = "\<lambda>si sj. foldM_e (?f3 si sj) (py_range (d + 1))"
  let ?f1 = "\<lambda>si. foldM_e (?f2 si) names"
  have l3: "?I t' \<and> (?Q t \<longrightarrow> ?Q t') \<and> (si = i \<and> sj = j \<longrightarrow> ?Q t')"
    if "?I t" and "?f2 si sj t = Inr t'" for si sj t t'
  proof -
    have "?I t' \<and> (?Q t \<longrightarrow> ?Q t')
        \<and> ((\<exists>k \<in> set (py_range (d + 1)). si = i \<and> sj = j \<and> k = 0) \<longrightarrow> ?Q t')"
    proof (rule foldM_e_hit [where I = ?I and Q = ?Q and hit = "\<lambda>k. si = i \<and> sj = j \<and> k = 0",
          OF that(2) that(1)])
      fix k u u'
      assume "k \<in> set (py_range (d + 1))" and u: "?I u" and step: "?f3 si sj k u = Inr u'"
      then have "0 \<le> k" using py_range_nonneg by blast
      from depth_0_search_step [OF ok mi fin mj u step this]
      show "?I u' \<and> (?Q u \<longrightarrow> ?Q u') \<and> (si = i \<and> sj = j \<and> k = 0 \<longrightarrow> ?Q u')" .
    qed
    then show ?thesis using zero_in_py_range [OF d] by blast
  qed
  have l2: "?I t' \<and> (?Q t \<longrightarrow> ?Q t') \<and> (si = i \<longrightarrow> ?Q t')"
    if "?I t" and "?f1 si t = Inr t'" for si t t'
  proof -
    have "?I t' \<and> (?Q t \<longrightarrow> ?Q t') \<and> ((\<exists>sj \<in> set names. si = i \<and> sj = j) \<longrightarrow> ?Q t')"
      by (rule foldM_e_hit [where I = ?I and Q = ?Q and hit = "\<lambda>sj. si = i \<and> sj = j",
            OF that(2) that(1)]) (use l3 in blast)
    then show ?thesis using j by blast
  qed
  have start: "?I st1" using empty sub_frame_refl by simp
  have "?I st' \<and> (?Q st1 \<longrightarrow> ?Q st') \<and> ((\<exists>si \<in> set names. si = i) \<longrightarrow> ?Q st')"
    by (rule foldM_e_hit [where I = ?I and Q = ?Q and hit = "\<lambda>si. si = i", OF run start])
       (use l2 in blast)
  then show ?thesis using i by blast
qed

lemma st_shared_run:
  "map_sum id (\<lambda>st. paths_of_depth st ''X'' ''Y'' 0)
     (run_between_all_subsystems sorted_list_of_set 1 st_shared) = Inr {[''B'']}"
  by code_simp

text \<open>
  Claim C4, as stated, fails in its second part: the (i, j, 0) path-result set of two distinct
  subsystems is not empty when they share a metabolite. Here X and Y share B, and after
  the searches the (X, Y, 0) set holds the path (B,).
\<close>

theorem depth_0_distinct_subsystems_counterexample:
  "''X'' \<noteq> ''Y''
   \<and> map_sum id (\<lambda>st. paths_of_depth st ''X'' ''Y'' 0 = {})
        (run_between_all_subsystems sorted_list_of_set 1 st_shared) = Inr False"
proof -
  obtain r where r: "run_between_all_subsystems sorted_list_of_set 1 st_shared = r" by simp
  have "map_sum id (\<lambda>st. paths_of_depth st ''X'' ''Y'' 0) r = Inr {[''B'']}"
    using st_shared_run unfolding r .
  then have "map_sum id (\<lambda>st. paths_of_depth st ''X'' ''Y'' 0 = {}) r = Inr False"
    by (cases r) simp_all
  then show ?thesis unfolding r by simp
qed

text \<open>
  Claim C4, amended. After the subsystem searches of the driver, started with an empty
  (i, j, 0) path-result set and a depth \<open>d \<ge> 0\<close>, that set holds exactly the one-node paths
  of the metabolites that subsystems \<open>i\<close> and \<open>j\<close> share; for \<open>i = j\<close> these are all the
  metabolites of \<open>i\<close>, and for \<open>i \<noteq> j\<close> the set is empty exactly when the two subsystems
  share no metabolite. At depth 0 the search runs no round, and its frontier is the start
  node alone when the start node is in the destination subsystem, and empty otherwise.
\<close>

theorem depth_0_paths:
  assumes "iter_ok iter"
    and "run_between_all_subsystems iter fuel st = Inr st'"
    and "0 \<le> depth_d st"
    and "i \<in> set (subsystem_names st)" and "j \<in> set (subsystem_names st)"
    and "paths_of_depth st i j 0 = {}"
  shows "subsystem_metabolites_id st' i = Some (subsystem_mets_of st i)
         \<and> subsystem_metabolites_id st' j = Some (subsystem_mets_of st j)
         \<and> paths_of_depth st' i j 0
             = (\<lambda>m. [m]) ` (subsystem_mets_of st i \<inter> subsystem_mets_of st j)
         \<and> (i = j \<longrightarrow> paths_of_depth st' i j 0 = (\<lambda>m. [m]) ` subsystem_mets_of st i)
         \<and> (i \<noteq> j \<longrightarrow> (paths_of_depth st' i j 0 = {}
                          \<longleftrightarrow> subsystem_mets_of st i \<inter> subsystem_mets_of st j = {}))
         \<and> bfs iter g allowed 0 m = Inr ({m}, {m}, Map.empty)
         \<and> handle_depth_0 st' j 0 m {m}
             = Inr (if m \<in> subsystem_mets_of st j then {m} else {})"
proof -
  let ?names = "subsystem_names st"
  from assms(2) obtain st1
    where ex: "foldM_e (\<lambda>subsystem s. extract_subsystem_metabolites subsystem
                          (extract_subsystem_reactions subsystem s)) ?names st = Inr st1"
      and loops: "foldM_e (\<lambda>subsystem_i.
                  foldM_e (\<lambda>subsystem_j.
                             foldM_e (breadth_search_subsystems_paths_length_d iter fuel
                                        subsystem_i subsystem_j)
                                     (py_range (depth_d st1 + 1)))
                          (subsystem_names st1))
               (subsystem_names st1) st1 = Inr st'"
    by (auto simp: run_between_all_subsystems_def bind_e_eq_Inr)
  have e: "extracted st ?names st1"
    using extract_all [OF ex extracted_nil] by simp
  note f = extracted_fields [OF e]
  have mi: "subsystem_metabolites_id st1 i = Some (subsystem_mets_of st i)"
    and mj: "subsystem_metabolites_id st1 j = Some (subsystem_mets_of st j)"
    using f(12) assms(4,5) by simp_all
  have empty: "slot3 (intermediate_paths st1) i j 0 = {}"
    using assms(6) f(8) by (simp add: paths_of_depth_slot3)
  have d: "0 \<le> depth_d st1" using assms(3) f(5) by simp
  have i: "i \<in> set (subsystem_names st1)" and j: "j \<in> set (subsystem_names st1)"
    using assms(4,5) f(4) by simp_all
  from depth_0_all_searches [OF assms(1) mi finite_subsystem_mets_of mj empty d i j loops]
  have frame: "sub_frame st1 st'"
    and res: "slot3 (intermediate_paths st') i j 0
               = (\<lambda>m. [m]) ` (subsystem_mets_of st i \<inter> subsystem_mets_of st j)"
    by simp_all
  have smi: "subsystem_metabolites_id st' = subsystem_metabolites_id st1"
    using sub_frame_fields(2) [OF frame] .
  have p: "paths_of_depth st' i j 0
      = (\<lambda>m. [m]) ` (subsystem_mets_of st i \<inter> subsystem_mets_of st j)"
    using res by (simp add: paths_of_depth_slot3)
  have h: "handle_depth_0 st' j 0 m {m} = Inr (if m \<in> subsystem_mets_of st j then {m} else {})"
    using handle_depth_0_at_0 [of st' j "subsystem_mets_of st j" m "{m}"] smi mj by simp
  show ?thesis using mi mj smi p h bfs_depth_0 [of iter g allowed m] by auto
qed

lemma st_shared_empty: "paths_of_depth st_shared ''X'' ''Y'' 0 = {}"
  by (simp add: paths_of_depth_def st_shared_def init_def get3_def get2_def index_nonneg
      dict_of_dicts_of_lists_of_sets_apply dict_of_lists_of_sets_apply)

theorem depth_0_paths_witness:
  "iter_ok sorted_list_of_set
   \<and> (\<exists>st'. run_between_all_subsystems sorted_list_of_set 1 st_shared = Inr st'
         \<and> 0 \<le> depth_d st_shared
         \<and> ''X'' \<in> set (subsystem_names st_shared) \<and> ''Y'' \<in> set (subsystem_names st_shared)
         \<and> paths_of_depth st_shared ''X'' ''Y'' 0 = {}
         \<and> paths_of_depth st' ''X'' ''Y'' 0
             = (\<lambda>m. [m]) ` (subsystem_mets_of st_shared ''X'' \<inter> subsystem_mets_of st_shared ''Y'')
         \<and> subsystem_mets_of st_shared ''X'' \<inter> subsystem_mets_of st_shared ''Y'' = {''B''})"
proof -
  obtain r where r: "run_between_all_subsystems sorted_list_of_set 1 st_shared = r" by simp
  have "map_sum id (\<lambda>st. paths_of_depth st ''X'' ''Y'' 0) r = Inr {[''B'']}"
    using st_shared_run unfolding r .
  then obtain st' where "r = Inr st'" by (cases r) simp_all
  then have run: "run_between_all_subsystems sorted_list_of_set 1 st_shared = Inr st'"
    using r by simp
  have d: "0 \<le> depth_d st_shared" by (simp add: st_shared_def init_def)
  have x: "''X'' \<in> set (subsystem_names st_shared)"
    and y: "''Y'' \<in> set (subsystem_names st_shared)"
    by (simp_all add: st_shared_def init_def)
  note inst = depth_0_paths [OF iter_ok_sorted run d x y st_shared_empty]
  have p: "paths_of_depth st' ''X'' ''Y'' 0
      = (\<lambda>m. [m]) ` (subsystem_mets_of st_shared ''X'' \<inter> subsystem_mets_of st_shared ''Y'')"
    using inst [THEN conjunct2, THEN conjunct2, THEN conjunct1] .
  have mx: "subsystem_mets_of st_shared ''X'' = {''A'', ''B''}"
    and my: "subsystem_mets_of st_shared ''Y'' = {''B'', ''C''}"
    by code_simp+
  have inter: "subsystem_mets_of st_shared ''X'' \<inter> subsystem_mets_of st_shared ''Y'' = {''B''}"
    unfolding mx my by simp
  show ?thesis
    by (intro conjI exI [of _ st']) (rule iter_ok_sorted run d x y st_shared_empty p inter)+
qed

end
